theory Spec2Isabelle
  imports Main "HOL-Library.Multiset" "HOL-Library.List_Lexorder"
begin

section \<open>JavaScript string primitives used by the analysed modules\<close>

text \<open>
  Selector and declaration text is modelled as \<open>string\<close>. The models below follow
  \<open>String.prototype.includes\<close>, \<open>startsWith\<close>, \<open>trim\<close>, \<open>split\<close> (with a
  one-character separator), \<open>Array.prototype.join\<close> and \<open>replace\<close>.
\<close>

fun js_startsWith :: "string \<Rightarrow> string \<Rightarrow> bool" where
  "js_startsWith s [] = True"
| "js_startsWith [] (p # ps) = False"
| "js_startsWith (c # cs) (p # ps) = (c = p \<and> js_startsWith cs ps)"

fun js_includes :: "string \<Rightarrow> string \<Rightarrow> bool" where
  "js_includes [] t = (t = [])"
| "js_includes (c # cs) t = (js_startsWith (c # cs) t \<or> js_includes cs t)"

text \<open>
  White space removed by \<open>trim\<close> and matched by \<open>\s\<close>, as far as a \<open>string\<close> of
  bytes can hold it: space, tab, line feed, vertical tab, form feed, carriage return.
\<close>

definition is_space :: "char \<Rightarrow> bool" where
  "is_space c = (c \<in> set [CHR '' '', CHR 0x09, CHR 0x0A, CHR 0x0B, CHR 0x0C, CHR 0x0D])"

definition js_trim :: "string \<Rightarrow> string" where
  "js_trim s = rev (dropWhile is_space (rev (dropWhile is_space s)))"

text \<open>\<open>s.replace(pat, rep)\<close> with a string pattern: only the first occurrence is replaced.
  The replacement texts used with it are empty, so no \<open>$\<close> pattern arises.\<close>

fun js_replace_first :: "string \<Rightarrow> string \<Rightarrow> string \<Rightarrow> string" where
  "js_replace_first [] pat rep = (if pat = [] then rep else [])"
| "js_replace_first (c # cs) pat rep =
     (if js_startsWith (c # cs) pat then rep @ drop (length pat) (c # cs)
      else c # js_replace_first cs pat rep)"

text \<open>\<open>s.split(sep)\<close> for a one-character separator: never an empty array.\<close>

fun js_split :: "char \<Rightarrow> string \<Rightarrow> string list" where
  "js_split sep [] = [[]]"
| "js_split sep (c # cs) =
     (if c = sep then [] # js_split sep cs
      else (case js_split sep cs of [] \<Rightarrow> [[c]] | w # ws \<Rightarrow> (c # w) # ws))"

fun js_join :: "string \<Rightarrow> string list \<Rightarrow> string" where
  "js_join sep [] = []"
| "js_join sep [x] = x"
| "js_join sep (x # y # ys) = x @ sep @ js_join sep (y # ys)"

text \<open>
  \<open>s.replace(/&/g, replacement)\<close>. The replacement text is a template: \<open>$$\<close> stands
  for \<open>$\<close>, \<open>$&\<close> for the matched text, \<open>$`\<close> (\<open>CHR 0x60\<close>) for the text before the
  match and \<open>$'\<close> (\<open>CHR 0x27\<close>) for the text after it; the pattern has no groups, so
  any other \<open>$\<close> stands for itself.
\<close>

fun getSubstitution :: "string \<Rightarrow> string \<Rightarrow> string \<Rightarrow> string \<Rightarrow> string" where
  "getSubstitution matched before after [] = []"
| "getSubstitution matched before after [c] = [c]"
| "getSubstitution matched before after (c # d # r) =
     (if c = CHR ''$'' \<and> d = CHR ''$'' then CHR ''$'' # getSubstitution matched before after r
      else if c = CHR ''$'' \<and> d = CHR ''&'' then matched @ getSubstitution matched before after r
      else if c = CHR ''$'' \<and> d = CHR 0x60 then before @ getSubstitution matched before after r
      else if c = CHR ''$'' \<and> d = CHR 0x27 then after @ getSubstitution matched before after r
      else c # getSubstitution matched before after (d # r))"

fun replace_amp_from :: "string \<Rightarrow> string \<Rightarrow> string \<Rightarrow> string" where
  "replace_amp_from before [] replacement = []"
| "replace_amp_from before (c # cs) replacement =
     (if c = CHR ''&''
      then getSubstitution ''&'' before cs replacement @
           replace_amp_from (before @ [c]) cs replacement
      else c # replace_amp_from (before @ [c]) cs replacement)"

definition js_replace_amp :: "string \<Rightarrow> string \<Rightarrow> string" where
  "js_replace_amp s replacement = replace_amp_from [] s replacement"

section \<open>Regular expressions\<close>

text \<open>
  The modules build and use \<open>RegExp\<close> objects. The fragment they need is modelled by a
  syntax tree and a backtracking matcher: literal text, character classes, \<open>+\<close> on a
  character class, \<open>?\<close>, alternation, sequence, the lookahead \<open>(?=...)\<close>, and the
  anchors \<open>^\<close> and \<open>$\<close> (no flags, so they mean start and end of input).
\<close>

datatype cset = Only "char list" | Except "char list"

fun cset_mem :: "cset \<Rightarrow> char \<Rightarrow> bool" where
  "cset_mem (Only cs) c = (c \<in> set cs)"
| "cset_mem (Except cs) c = (c \<notin> set cs)"

datatype rx =
    Lit string
  | Chars cset
  | Plus cset
  | Opt rx
  | Alt "rx list"
  | Seq "rx list"
  | Ahead rx
  | Bol
  | Eol

text \<open>\<open>\d\<close> and \<open>\s\<close> (the white space that a \<open>string\<close> of bytes can hold).\<close>

definition digit_chars :: "char list" where
  "digit_chars = ''0123456789''"

definition space_chars :: "char list" where
  "space_chars = [CHR '' '', CHR 0x09, CHR 0x0A, CHR 0x0B, CHR 0x0C, CHR 0x0D]"

text \<open>
  A position is the rest of the input together with the flag "nothing consumed yet".
  \<open>rx_run r p\<close> lists the positions at which a match of \<open>r\<close> starting at \<open>p\<close> can
  end, in the order in which a backtracking matcher tries them (greedy first).
\<close>

type_synonym rx_pos = "bool \<times> string"

fun rx_run :: "rx \<Rightarrow> rx_pos \<Rightarrow> rx_pos list"
  and rx_run_seq :: "rx list \<Rightarrow> rx_pos \<Rightarrow> rx_pos list"
  and rx_run_alt :: "rx list \<Rightarrow> rx_pos \<Rightarrow> rx_pos list" where
  "rx_run (Lit w) p =
     (if js_startsWith (snd p) w then [(fst p \<and> w = [], drop (length w) (snd p))] else [])"
| "rx_run (Chars cs) p =
     (case snd p of [] \<Rightarrow> [] | c # rest \<Rightarrow> if cset_mem cs c then [(False, rest)] else [])"
| "rx_run (Plus cs) p =
     map (\<lambda>k. (False, drop k (snd p)))
       (rev [1 ..< Suc (length (takeWhile (cset_mem cs) (snd p)))])"
| "rx_run (Opt r) p = rx_run r p @ [p]"
| "rx_run (Alt rs) p = rx_run_alt rs p"
| "rx_run (Seq rs) p = rx_run_seq rs p"
| "rx_run (Ahead r) p = (if rx_run r p \<noteq> [] then [p] else [])"
| "rx_run Bol p = (if fst p then [p] else [])"
| "rx_run Eol p = (if snd p = [] then [p] else [])"
| "rx_run_seq [] p = [p]"
| "rx_run_seq (r # rs) p = concat (map (rx_run_seq rs) (rx_run r p))"
| "rx_run_alt [] p = []"
| "rx_run_alt (r # rs) p = rx_run r p @ rx_run_alt rs p"

text \<open>\<open>RegExp.prototype.test\<close> without flags: a match may start at any index.\<close>

fun rx_search :: "rx \<Rightarrow> bool \<Rightarrow> string \<Rightarrow> bool" where
  "rx_search r b [] = (rx_run r (b, []) \<noteq> [])"
| "rx_search r b (c # cs) = (rx_run r (b, c # cs) \<noteq> [] \<or> rx_search r False cs)"

definition rx_test :: "rx \<Rightarrow> string \<Rightarrow> bool" where
  "rx_test r s = rx_search r True s"

section \<open>The target element and the analysis results\<close>

text \<open>The target element's identity, as the HTML parser hands it over.\<close>

record target_info =
  classes :: "string list"
  ids :: "string list"
  tagName :: string
  dataAttributes :: "string list"
  shadowParts :: "string list"


text \<open>
  What \<open>analyzeCSS\<close> returns for a file, as far as the cascade engine and the ghost
  detector read it. \<open>matchedOn\<close> may be an array, a single string, or absent. A field
  that may be absent is an \<open>option\<close>: the consumers supply \<open>''\<close> or \<open>[]\<close> through
  \<open>||\<close>.
\<close>

datatype matched_on = MatchedOnArray "string list" | MatchedOnString string | MatchedOnAbsent

record css_match =
  match_selector :: "string option"
  match_content :: "string option"
  match_matchedOn :: matched_on
  match_startLine :: nat
  match_endLine :: nat

record css_result =
  result_filePath :: "string option"
  result_file :: "string option"
  result_matches :: "css_match list option"

record inline_style =
  style_content :: "string option"

text \<open>\<open>a || b\<close> on strings that may be absent: the empty string is falsy.\<close>

definition js_or :: "string option \<Rightarrow> string option \<Rightarrow> string option" where
  "js_or a b = (case a of None \<Rightarrow> b | Some s \<Rightarrow> if s = [] then b else Some s)"

definition or_empty :: "string option \<Rightarrow> string" where
  "or_empty v = (case v of None \<Rightarrow> [] | Some s \<Rightarrow> s)"

text \<open>A value used as a property key: \<open>undefined\<close> becomes the key \<open>undefined\<close>.\<close>

definition property_key :: "string option \<Rightarrow> string" where
  "property_key v = (case v of None \<Rightarrow> ''undefined'' | Some s \<Rightarrow> s)"

section \<open>CSS analyzer: nested selector resolution (css-analyzer.js)\<close>

text \<open>
  A PostCSS rule as far as \<open>resolveNestedSelector\<close> reads it: its selector and its
  parent, which may be absent, the root, an at-rule (name, parameters, parent) or a rule.
\<close>

datatype parent = NoParent | RootNode | AtRuleNode string string parent | RuleNode rule
  and rule = Rule string parent

fun resolveNestedSelector :: "rule \<Rightarrow> string" where
  "resolveNestedSelector (Rule selfSelector (RuleNode parentRule)) =
     (let parentSelector = resolveNestedSelector parentRule in
      if js_includes selfSelector ''&'' then
        (if js_includes parentSelector '',''
         then js_join '', ''
                (map (\<lambda>p. js_replace_amp selfSelector p)
                   (map js_trim (js_split (CHR '','') parentSelector)))
         else js_replace_amp selfSelector parentSelector)
      else if js_includes parentSelector '',''
      then js_join '', ''
             (map (\<lambda>p. p @ '' '' @ selfSelector)
                (map js_trim (js_split (CHR '','') parentSelector)))
      else parentSelector @ '' '' @ selfSelector)"
| "resolveNestedSelector (Rule selfSelector _) = selfSelector"

section \<open>CSS analyzer: target matching (css-analyzer.js)\<close>

subsection \<open>escapeRegex and the patterns of buildTargetSelectors\<close>

text \<open>The characters of the class \<open>[.*+?^${}()|[\]\\]\<close>; \<open>CHR 0x5C\<close> is the backslash.\<close>

definition regex_syntax_chars :: "char list" where
  "regex_syntax_chars = ''.*+?^${}()|[]'' @ [CHR 0x5C]"

text \<open>\<open>string.replace(/[.*+?^${}()|[\]\\]/g, '\\$&')\<close>: a backslash before each of them.\<close>

definition escapeRegex :: "string \<Rightarrow> string" where
  "escapeRegex s =
     concat (map (\<lambda>c. if c \<in> set regex_syntax_chars then [CHR 0x5C, c] else [c]) s)"

text \<open>
  How \<open>new RegExp\<close> reads the interpolated part of a pattern: an ordinary character
  stands for itself, and so does a syntax character after a backslash. Anything else (a
  bare syntax character, a backslash before another character, a trailing backslash) is
  not literal text; the result is then \<open>None\<close> and no pattern is built.
\<close>

fun regex_atoms :: "string \<Rightarrow> rx list option" where
  "regex_atoms [] = Some []"
| "regex_atoms (c # cs) =
     (if c = CHR 0x5C then
        (case cs of
           [] \<Rightarrow> None
         | d # ds \<Rightarrow>
             if d \<in> set regex_syntax_chars then map_option ((#) (Lit [d])) (regex_atoms ds)
             else None)
      else if c \<in> set regex_syntax_chars then None
      else map_option ((#) (Lit [c])) (regex_atoms cs))"

record target =
  target_type :: string
  target_value :: string
  pattern :: rx

text \<open>\<open>\.CLS(?=[\s,:.\[#]|$)\<close>\<close>

definition class_pattern :: "string \<Rightarrow> rx option" where
  "class_pattern cls =
     map_option
       (\<lambda>atoms. Seq (Lit ''.'' # atoms @
          [Ahead (Alt [Chars (Only (space_chars @ '',:.[#'')), Eol])]))
       (regex_atoms (escapeRegex cls))"

text \<open>\<open>#ID(?=[\s,:.\[#]|$)\<close>\<close>

definition id_pattern :: "string \<Rightarrow> rx option" where
  "id_pattern ident =
     map_option
       (\<lambda>atoms. Seq (Lit ''#'' # atoms @
          [Ahead (Alt [Chars (Only (space_chars @ '',:.[#'')), Eol])]))
       (regex_atoms (escapeRegex ident))"

text \<open>\<open>(?:^|[\s,>+~])TAG(?=[\s,:.\[#>+~]|$)\<close>\<close>

definition tag_pattern :: "string \<Rightarrow> rx option" where
  "tag_pattern tag =
     map_option
       (\<lambda>atoms. Seq (Alt [Bol, Chars (Only (space_chars @ '',>+~''))] # atoms @
          [Ahead (Alt [Chars (Only (space_chars @ '',:.[#>+~'')), Eol])]))
       (regex_atoms (escapeRegex tag))"

text \<open>\<open>\[ATTR(?:[~|^$*]?=|\])\<close>\<close>

definition data_attr_pattern :: "string \<Rightarrow> rx option" where
  "data_attr_pattern attr =
     map_option
       (\<lambda>atoms. Seq (Lit ''['' # atoms @
          [Alt [Seq [Opt (Chars (Only ''~|^$*'')), Lit ''=''], Lit '']'']]))
       (regex_atoms (escapeRegex attr))"

definition make_target :: "string \<Rightarrow> string \<Rightarrow> rx option \<Rightarrow> target option" where
  "make_target ty v p =
     map_option (\<lambda>r. \<lparr>target_type = ty, target_value = v, pattern = r\<rparr>) p"

text \<open>\<open>None\<close>: a \<open>new RegExp\<close> did not get a pattern.\<close>

definition buildTargetSelectors :: "target_info \<Rightarrow> target list option" where
  "buildTargetSelectors targetInfo =
     those
       (map (\<lambda>cls. make_target ''class'' cls (class_pattern cls)) (classes targetInfo) @
        map (\<lambda>ident. make_target ''id'' ident (id_pattern ident)) (ids targetInfo) @
        (if length (classes targetInfo) > 0 \<or> length (ids targetInfo) > 0
         then [make_target ''tag'' (tagName targetInfo) (tag_pattern (tagName targetInfo))]
         else []) @
        map (\<lambda>attr. make_target ''data-attr'' attr (data_attr_pattern attr))
          (dataAttributes targetInfo))"

subsection \<open>expandModernPseudoClasses\<close>

text \<open>
  The \<open>exec\<close> loop of the global pattern \<open>:FUNC\(([^)]+)\)\<close> over the selector:
  \<open>opener\<close> is the text \<open>:FUNC(\<close>. A match needs at least one character other than
  \<open>)\<close> and then a \<open>)\<close>; the capture is the text between the parentheses; the search
  goes on after the match. The result lists the captures.
\<close>

function exec_captures :: "string \<Rightarrow> string \<Rightarrow> string list" where
  "exec_captures opener [] = []"
| "exec_captures opener (c # cs) =
     (if js_startsWith (c # cs) opener then
        (let rest = drop (length opener) (c # cs);
             inner = takeWhile (\<lambda>x. x \<noteq> CHR '')'') rest;
             after = dropWhile (\<lambda>x. x \<noteq> CHR '')'') rest
         in if inner \<noteq> [] \<and> after \<noteq> []
            then inner # exec_captures opener (drop 1 after)
            else exec_captures opener cs)
      else exec_captures opener cs)"
  by pat_completeness auto
termination
proof (relation "measure (\<lambda>(opener, s). length s)")
  show "wf (measure (\<lambda>(opener, s). length s))" by simp
next
  fix opener :: string and c :: char and cs rest inner after :: string
  assume "rest = drop (length opener) (c # cs)"
    and "after = dropWhile (\<lambda>x. x \<noteq> CHR '')'') rest"
    and "inner \<noteq> [] \<and> after \<noteq> []"
  have "length (dropWhile (\<lambda>x. x \<noteq> CHR '')'') (drop (length opener) (c # cs))) \<le> length (c # cs)"
    by (rule order_trans[OF length_dropWhile_le]) simp
  then show "((opener, drop 1 after), (opener, c # cs)) \<in> measure (\<lambda>(opener, s). length s)"
    using \<open>rest = _\<close> \<open>after = _\<close> \<open>inner \<noteq> [] \<and> after \<noteq> []\<close>
    by (cases after) auto
qed auto

definition pseudoFunctions :: "string list" where
  "pseudoFunctions = [''is'', ''where'', ''not'', ''has'']"

definition expandModernPseudoClasses :: "string \<Rightarrow> string" where
  "expandModernPseudoClasses selector =
     fold (\<lambda>func expanded.
             fold (\<lambda>innerSelectors e. e @ '' '' @ innerSelectors)
               (exec_captures ('':'' @ func @ ''('') selector) expanded)
          pseudoFunctions selector"

subsection \<open>checkRuleMatch\<close>

record match_info =
  matches :: bool
  matchedOn :: "string list"

definition target_hits :: "string \<Rightarrow> string \<Rightarrow> target \<Rightarrow> bool" where
  "target_hits ruleSelector expandedSelector t =
     (rx_test (pattern t) ruleSelector \<or> rx_test (pattern t) expandedSelector)"

definition checkRuleMatch :: "string \<Rightarrow> target list \<Rightarrow> match_info" where
  "checkRuleMatch ruleSelector targetSelectors =
     (let expandedSelector = expandModernPseudoClasses ruleSelector;
          reasons = map (\<lambda>t. target_type t @ '': '' @ target_value t)
                      (filter (target_hits ruleSelector expandedSelector) targetSelectors)
      in \<lparr>matches = (length reasons > 0), matchedOn = reasons\<rparr>)"

section \<open>Specificity and cascade engine (specificity-calculator.js)\<close>

subsection \<open>calculateSpecificity\<close>

text \<open>
  The argument is any JavaScript value. The function \<open>calculate\<close> comes from the
  \<open>specificity\<close> package; it is a parameter here. A call of it may throw, return a
  falsy value, or return an object whose fields \<open>A\<close>, \<open>B\<close>, \<open>C\<close> are numbers or
  absent (\<open>None\<close>).
\<close>

datatype js_value =
    JSUndefined | JSNull | JSBoolean bool | JSNumber int | JSString string | JSObject

datatype library_result =
    LibraryThrows | LibraryFalsy | LibraryObject "nat option" "nat option" "nat option"

text \<open>\<open>x || 0\<close> for a number or an absent field.\<close>

definition or_zero :: "nat option \<Rightarrow> nat" where
  "or_zero x = (case x of None \<Rightarrow> 0 | Some n \<Rightarrow> n)"

definition calculateSpecificity :: "(string \<Rightarrow> library_result) \<Rightarrow> js_value \<Rightarrow> nat list" where
  "calculateSpecificity calculate selector =
     (case selector of
        JSString s \<Rightarrow>
          if s = [] then [0, 0, 0, 0]
          else
            (case calculate s of
               LibraryObject a b c \<Rightarrow> [0, or_zero a, or_zero b, or_zero c]
             | LibraryFalsy \<Rightarrow> [0, 0, 0, 0]
             | LibraryThrows \<Rightarrow> [0, 0, 0, 0])
      | _ \<Rightarrow> [0, 0, 0, 0])"

subsection \<open>The library function\<close>

text \<open>
  Modelled from the spec: the function \<open>calculate\<close> of the \<open>specificity\<close> package,
  which \<open>calculateSpecificity\<close> delegates to and which is not part of the sources. The
  specification says that it counts ids, classes/attributes/pseudo-classes and type
  selectors; that \<open>:where(...)\<close> contributes nothing whatever its argument is; that the
  contents of \<open>:is()\<close>, \<open>:not()\<close> and \<open>:has()\<close> are counted as ordinary selector
  content; and that a selector that does not parse gives no result. The model reads the
  selector one character at a time. Parsing fails on an unbalanced parenthesis or
  bracket, on \<open>#\<close>, \<open>.\<close> or \<open>:\<close> without a name after it, and on a character that no
  selector contains.
\<close>

text \<open>Modelled from the spec: what the reader of \<open>calculate\<close> is in the middle of: nothing, a name
  that must start, a name, the text after a colon, a pseudo-class name, an attribute
  selector, or an argument list that is not counted (with its nesting depth).\<close>

datatype scan_mode =
    Top | Expect | Name | Colon | PseudoName string | Attr | Skipped nat

text \<open>Modelled from the spec: the three counts of \<open>calculate\<close>, the reader's mode, and the number
  of open \<open>:is(\<close>, \<open>:not(\<close>, \<open>:has(\<close> whose contents are being counted.\<close>

record scan_state =
  count_A :: nat
  count_B :: nat
  count_C :: nat
  mode :: scan_mode
  open_parens :: nat

text \<open>Modelled from the spec: the characters of a name.\<close>

definition is_ident_char :: "char \<Rightarrow> bool" where
  "is_ident_char c =
     (c \<in> set (''abcdefghijklmnopqrstuvwxyzABCDEFGHIJKLMNOPQRSTUVWXYZ'' @ digit_chars @ ''-_''))"

text \<open>Modelled from the spec: a character at the start of a simple selector: \<open>#\<close> counts
  an id, \<open>.\<close> and \<open>[\<close> a class or attribute, a name a type selector; \<open>*\<close>, white
  space and combinators count nothing.\<close>

definition scan_top :: "scan_state \<Rightarrow> char \<Rightarrow> scan_state option" where
  "scan_top st c =
     (if c = CHR ''#'' then Some (st\<lparr>count_A := count_A st + 1, mode := Expect\<rparr>)
      else if c = CHR ''.'' then Some (st\<lparr>count_B := count_B st + 1, mode := Expect\<rparr>)
      else if c = CHR ''['' then Some (st\<lparr>count_B := count_B st + 1, mode := Attr\<rparr>)
      else if c = CHR '':'' then Some (st\<lparr>mode := Colon\<rparr>)
      else if c = CHR ''*'' \<or> is_space c \<or> c \<in> set '',>+~'' then Some (st\<lparr>mode := Top\<rparr>)
      else if c = CHR '')'' then
        (if open_parens st > 0
         then Some (st\<lparr>mode := Top, open_parens := open_parens st - 1\<rparr>)
         else None)
      else if is_ident_char c then Some (st\<lparr>count_C := count_C st + 1, mode := Name\<rparr>)
      else None)"

text \<open>Modelled from the spec: one character of the selector. \<open>:where(\<close> starts an argument
  list that is not counted; \<open>:is(\<close>, \<open>:not(\<close>, \<open>:has(\<close> count nothing themselves and
  their contents are read as ordinary selector content; any other pseudo-class counts
  as a class and its argument list is not counted; \<open>::\<close> starts a pseudo-element,
  counted with the type selectors.\<close>

definition scan_step :: "scan_state \<Rightarrow> char \<Rightarrow> scan_state option" where
  "scan_step st c =
     (case mode st of
        Top \<Rightarrow> scan_top st c
      | Expect \<Rightarrow> if is_ident_char c then Some (st\<lparr>mode := Name\<rparr>) else None
      | Name \<Rightarrow> if is_ident_char c then Some st else scan_top st c
      | Colon \<Rightarrow>
          if c = CHR '':'' then Some (st\<lparr>count_C := count_C st + 1, mode := Expect\<rparr>)
          else if is_ident_char c then Some (st\<lparr>mode := PseudoName [c]\<rparr>)
          else None
      | PseudoName n \<Rightarrow>
          if is_ident_char c then Some (st\<lparr>mode := PseudoName (n @ [c])\<rparr>)
          else if c = CHR ''('' then
            (if n = ''where'' then Some (st\<lparr>mode := Skipped 1\<rparr>)
             else if n \<in> set [''is'', ''not'', ''has'']
             then Some (st\<lparr>mode := Top, open_parens := open_parens st + 1\<rparr>)
             else Some (st\<lparr>count_B := count_B st + 1, mode := Skipped 1\<rparr>))
          else scan_top (st\<lparr>count_B := count_B st + 1\<rparr>) c
      | Attr \<Rightarrow> if c = CHR '']'' then Some (st\<lparr>mode := Top\<rparr>) else Some st
      | Skipped n \<Rightarrow>
          if c = CHR ''('' then Some (st\<lparr>mode := Skipped (n + 1)\<rparr>)
          else if c = CHR '')'' then
            (if n \<le> 1 then Some (st\<lparr>mode := Top\<rparr>) else Some (st\<lparr>mode := Skipped (n - 1)\<rparr>))
          else Some st)"

text \<open>Modelled from the spec: the whole selector, character by character; \<open>None\<close> when a
  character cannot be read.\<close>

fun scan :: "scan_state \<Rightarrow> string \<Rightarrow> scan_state option" where
  "scan st [] = Some st"
| "scan st (c # cs) = (case scan_step st c of None \<Rightarrow> None | Some st' \<Rightarrow> scan st' cs)"

text \<open>Modelled from the spec: the result at the end of the selector; a selector that
  ends inside a bracket, an argument list or an open \<open>:is(\<close> does not parse.\<close>

definition scan_finish :: "scan_state \<Rightarrow> library_result" where
  "scan_finish st =
     (if open_parens st > 0 then LibraryThrows
      else
        (case mode st of
           Top \<Rightarrow> LibraryObject (Some (count_A st)) (Some (count_B st)) (Some (count_C st))
         | Name \<Rightarrow> LibraryObject (Some (count_A st)) (Some (count_B st)) (Some (count_C st))
         | PseudoName n \<Rightarrow>
             LibraryObject (Some (count_A st)) (Some (count_B st + 1)) (Some (count_C st))
         | _ \<Rightarrow> LibraryThrows))"

text \<open>Modelled from the spec: \<open>calculate\<close> of the \<open>specificity\<close> package.\<close>

definition spec_calculate :: "string \<Rightarrow> library_result" where
  "spec_calculate s =
     (case scan \<lparr>count_A = 0, count_B = 0, count_C = 0, mode = Top, open_parens = 0\<rparr> s of
        None \<Rightarrow> LibraryThrows
      | Some st \<Rightarrow> scan_finish st)"

subsection \<open>compareSpecificity\<close>

text \<open>
  A specificity is a JavaScript array of numbers. Reading \<open>a[i]\<close> past the end gives
  \<open>undefined\<close>, and every comparison with \<open>undefined\<close> is false.
\<close>

definition js_index :: "nat list \<Rightarrow> nat \<Rightarrow> nat option" where
  "js_index a i = (if i < length a then Some (a ! i) else None)"

definition js_gt :: "nat option \<Rightarrow> nat option \<Rightarrow> bool" where
  "js_gt x y = (case (x, y) of (Some m, Some n) \<Rightarrow> m > n | _ \<Rightarrow> False)"

definition js_lt :: "nat option \<Rightarrow> nat option \<Rightarrow> bool" where
  "js_lt x y = (case (x, y) of (Some m, Some n) \<Rightarrow> m < n | _ \<Rightarrow> False)"

function compareSpecificity_from :: "nat \<Rightarrow> nat list \<Rightarrow> nat list \<Rightarrow> int" where
  "compareSpecificity_from i a b =
     (if i < 4 then
        (if js_gt (js_index a i) (js_index b i) then 1
         else if js_lt (js_index a i) (js_index b i) then - 1
         else compareSpecificity_from (i + 1) a b)
      else 0)"
  by pat_completeness auto
termination
  by (relation "measure (\<lambda>(i, a, b). 4 - i)") auto

definition compareSpecificity :: "nat list \<Rightarrow> nat list \<Rightarrow> int" where
  "compareSpecificity a b = compareSpecificity_from 0 a b"

subsection \<open>hasImportant\<close>

definition hasImportant_value :: "string \<Rightarrow> bool" where
  "hasImportant_value v = js_includes v ''!important''"

subsection \<open>parseProperties\<close>

text \<open>
  \<open>content.match(/\{([^}]+)\}/)\<close>: the first \<open>{\<close> that is followed by at least one
  character other than \<open>}\<close> and then by \<open>}\<close>; the capture is the text between them.
\<close>

fun brace_body :: "string \<Rightarrow> string option" where
  "brace_body [] = None"
| "brace_body (c # cs) =
     (if c = CHR ''{'' \<and> takeWhile (\<lambda>x. x \<noteq> CHR ''}'') cs \<noteq> [] \<and>
         dropWhile (\<lambda>x. x \<noteq> CHR ''}'') cs \<noteq> []
      then Some (takeWhile (\<lambda>x. x \<noteq> CHR ''}'') cs)
      else brace_body cs)"

text \<open>
  \<open>properties[prop] = value\<close> on an object whose entries are read in insertion order: a
  key that is present keeps its place.
\<close>

fun object_set :: "string \<Rightarrow> 'v \<Rightarrow> (string \<times> 'v) list \<Rightarrow> (string \<times> 'v) list" where
  "object_set k v [] = [(k, v)]"
| "object_set k v ((k', v') # entries) =
     (if k' = k then (k, v) # entries else (k', v') # object_set k v entries)"

definition parse_declaration :: "string \<Rightarrow> (string \<times> string) list \<Rightarrow> (string \<times> string) list" where
  "parse_declaration decl properties =
     (if CHR '':'' \<in> set decl \<and> takeWhile (\<lambda>x. x \<noteq> CHR '':'') decl \<noteq> [] then
        (let prop = js_trim (takeWhile (\<lambda>x. x \<noteq> CHR '':'') decl);
             v = js_trim (drop 1 (dropWhile (\<lambda>x. x \<noteq> CHR '':'') decl))
         in if prop \<noteq> [] \<and> v \<noteq> [] then object_set prop v properties else properties)
      else properties)"

definition parseProperties :: "string \<Rightarrow> (string \<times> string) list" where
  "parseProperties content =
     (let body = (case brace_body content of None \<Rightarrow> content | Some inner \<Rightarrow> inner)
      in fold parse_declaration (js_split (CHR '';'') body) [])"

subsection \<open>analyzeConflicts\<close>

text \<open>The object pushed onto \<open>propertyRules[prop]\<close> for one declaration.\<close>

record candidate =
  selector :: string
  specificity :: "nat list"
  decl_value :: string
  hasImportant :: bool
  filePath :: "string option"
  fileOrder :: nat
  globalOrder :: nat
  startLine :: nat
  endLine :: nat

text \<open>
  \<open>linkedFiles.css.forEach((file, index) => { fileOrder[file] = index })\<close>: a later
  occurrence of a path overwrites an earlier one. A path that is not a key reads as
  \<open>undefined\<close> and \<open>??\<close> replaces it by 999. The table is a plain object; paths
  and property names that name a member of \<open>Object.prototype\<close> or are array indices
  are outside the model.
\<close>

definition record_index :: "nat \<times> string \<Rightarrow> (string \<rightharpoonup> nat) \<Rightarrow> (string \<rightharpoonup> nat)" where
  "record_index p table = table(snd p \<mapsto> fst p)"

definition fileOrder_table :: "string list \<Rightarrow> (string \<rightharpoonup> nat)" where
  "fileOrder_table css = fold record_index (enumerate 0 css) Map.empty"

definition fileOrderValue :: "string list \<Rightarrow> string option \<Rightarrow> nat" where
  "fileOrderValue css path =
     (case fileOrder_table css (property_key path) of Some index \<Rightarrow> index | None \<Rightarrow> 999)"

text \<open>
  The first loop. Its state is \<open>propertyRules\<close>, in insertion order of the property
  names, and the counter \<open>globalOrder\<close>.
\<close>

fun push_rule ::
  "string \<Rightarrow> candidate \<Rightarrow> (string \<times> candidate list) list \<Rightarrow> (string \<times> candidate list) list" where
  "push_rule prop c [] = [(prop, [c])]"
| "push_rule prop c ((k, rules) # entries) =
     (if k = prop then (k, rules @ [c]) # entries else (k, rules) # push_rule prop c entries)"

type_synonym collect_state = "(string \<times> candidate list) list \<times> nat"

definition collect_declaration ::
  "string \<Rightarrow> nat list \<Rightarrow> string option \<Rightarrow> nat \<Rightarrow> css_match \<Rightarrow> string \<times> string \<Rightarrow>
     collect_state \<Rightarrow> collect_state" where
  "collect_declaration sel spec path order m entry st =
     (push_rule (fst entry)
        \<lparr>selector = sel, specificity = spec, decl_value = snd entry,
         hasImportant = hasImportant_value (snd entry), filePath = path,
         fileOrder = order, globalOrder = snd st,
         startLine = match_startLine m, endLine = match_endLine m\<rparr>
        (fst st),
      snd st + 1)"

definition collect_match ::
  "(string \<Rightarrow> library_result) \<Rightarrow> string option \<Rightarrow> nat \<Rightarrow> css_match \<Rightarrow>
     collect_state \<Rightarrow> collect_state" where
  "collect_match calculate path order m st =
     (let sel = or_empty (match_selector m);
          spec = calculateSpecificity calculate (JSString sel);
          content = or_empty (match_content m);
          properties = parseProperties content
      in fold (collect_declaration sel spec path order m) properties st)"

definition collect_result ::
  "(string \<Rightarrow> library_result) \<Rightarrow> string list \<Rightarrow> css_result \<Rightarrow> collect_state \<Rightarrow> collect_state" where
  "collect_result calculate css result st =
     (let path = js_or (result_filePath result) (result_file result);
          order = fileOrderValue css path
      in fold (collect_match calculate path order)
           (case result_matches result of None \<Rightarrow> [] | Some ms \<Rightarrow> ms) st)"

definition collect_rules ::
  "(string \<Rightarrow> library_result) \<Rightarrow> css_result list \<Rightarrow> string list \<Rightarrow>
     (string \<times> candidate list) list" where
  "collect_rules calculate cssResults css =
     fst (fold (collect_result calculate css) cssResults ([], 0))"

text \<open>The callback handed to \<open>sort\<close>.\<close>

definition cascade_compare :: "candidate \<Rightarrow> candidate \<Rightarrow> int" where
  "cascade_compare a b =
     (if hasImportant a \<and> \<not> hasImportant b then 1
      else if \<not> hasImportant a \<and> hasImportant b then - 1
      else
        (let specCompare = compareSpecificity (specificity a) (specificity b) in
         if specCompare \<noteq> 0 then specCompare
         else if fileOrder a \<noteq> fileOrder b then int (fileOrder a) - int (fileOrder b)
         else int (globalOrder a) - int (globalOrder b)))"

text \<open>
  \<open>Array.prototype.sort\<close> is stable and, for a consistent comparator, returns the
  sorted permutation; it is modelled by a stable insertion sort, which puts an element
  before the first element it does not exceed.
\<close>

fun insert_by :: "('a \<Rightarrow> 'a \<Rightarrow> int) \<Rightarrow> 'a \<Rightarrow> 'a list \<Rightarrow> 'a list" where
  "insert_by cmp x [] = [x]"
| "insert_by cmp x (y # ys) = (if cmp x y \<le> 0 then x # y # ys else y # insert_by cmp x ys)"

definition js_sort :: "('a \<Rightarrow> 'a \<Rightarrow> int) \<Rightarrow> 'a list \<Rightarrow> 'a list" where
  "js_sort cmp xs = foldr (insert_by cmp) xs []"

record decision =
  winner :: candidate
  losers :: "candidate list"
  hasConflict :: bool

text \<open>
  The body of the second loop over \<open>Object.entries(propertyRules)\<close>: \<open>None\<close> is the
  \<open>continue\<close> taken when a property has at most one candidate.
\<close>

definition resolve_property :: "candidate list \<Rightarrow> decision option" where
  "resolve_property rules =
     (if length rules \<le> 1 then None
      else
        (let sorted = js_sort cascade_compare rules;
             ls = butlast sorted
         in Some \<lparr>winner = last sorted, losers = ls, hasConflict = (length ls > 0)\<rparr>))"

text \<open>
  The result object \<open>conflicts\<close>, as its entries in insertion order. The library
  function and the array \<open>linkedFiles.css\<close> are parameters.
\<close>

definition analyzeConflicts ::
  "(string \<Rightarrow> library_result) \<Rightarrow> css_result list \<Rightarrow> string list \<Rightarrow> (string \<times> decision) list" where
  "analyzeConflicts calculate cssResults css =
     (let propertyRules = collect_rules calculate cssResults css
      in List.map_filter
           (\<lambda>entry. map_option (Pair (fst entry)) (resolve_property (snd entry)))
           propertyRules)"

section \<open>Ghost class detector (ghost-detector.js)\<close>

record ghost_report =
  ghostClasses :: "string list"
  definedClasses :: "string list"
  totalClasses :: nat
  hasGhosts :: "bool option"

text \<open>\<open>Set.prototype.add\<close> on a set kept in insertion order.\<close>

definition set_add :: "string \<Rightarrow> string list \<Rightarrow> string list" where
  "set_add x xs = (if x \<in> set xs then xs else xs @ [x])"

definition matchedOn_items :: "matched_on \<Rightarrow> string list" where
  "matchedOn_items m =
     (case m of MatchedOnArray items \<Rightarrow> items | MatchedOnString item \<Rightarrow> [item]
      | MatchedOnAbsent \<Rightarrow> [])"

definition processMatchedOn :: "matched_on \<Rightarrow> string list \<Rightarrow> string list" where
  "processMatchedOn m defined =
     fold (\<lambda>item d.
             if js_startsWith item ''class:''
             then set_add (CHR ''.'' #
                    js_trim (js_replace_first (js_replace_first item ''class: '' []) ''class:'' [])) d
             else d)
          (matchedOn_items m) defined"

definition add_included :: "string list \<Rightarrow> string \<Rightarrow> string list \<Rightarrow> string list" where
  "add_included cls_list text defined =
     fold (\<lambda>cls d. if js_includes text cls then set_add cls d else d) cls_list defined"

definition scan_match :: "string list \<Rightarrow> css_match \<Rightarrow> string list \<Rightarrow> string list" where
  "scan_match cls_list m defined =
     add_included cls_list (or_empty (match_selector m))
       (processMatchedOn (match_matchedOn m) defined)"

definition scan_results :: "string list \<Rightarrow> css_result list \<Rightarrow> string list \<Rightarrow> string list" where
  "scan_results cls_list results defined =
     fold (\<lambda>result d.
             fold (scan_match cls_list)
               (case result_matches result of None \<Rightarrow> [] | Some ms \<Rightarrow> ms) d)
          results defined"

definition scan_inline :: "string list \<Rightarrow> inline_style list \<Rightarrow> string list \<Rightarrow> string list" where
  "scan_inline cls_list styles defined =
     fold (\<lambda>style d. add_included cls_list (or_empty (style_content style)) d) styles defined"

definition anchored :: "string \<Rightarrow> rx" where
  "anchored w = Seq [Bol, Lit w]"

definition colour_names :: "rx list" where
  "colour_names = map Lit [''black'', ''white'', ''gray'', ''red'', ''blue'', ''green'',
     ''yellow'', ''indigo'', ''purple'', ''pink'']"

definition IGNORED_PATTERNS :: "rx list" where
  "IGNORED_PATTERNS =
    [Seq [Bol, Alt [Lit ''p'', Lit ''m''], Opt (Chars (Only ''xytrbl'')), Lit ''-'',
          Plus (Only digit_chars)],
     Seq [Bol, Lit ''text-'', Alt [Lit ''xs'', Lit ''sm'', Lit ''base'', Lit ''lg'', Lit ''xl'',
          Seq [Plus (Only digit_chars), Lit ''xl'']]],
     Seq [Bol, Lit ''text-'', Alt colour_names],
     Seq [Bol, Lit ''bg-'', Alt colour_names],
     Seq [Bol, Lit ''font-'', Alt (map Lit [''sans'', ''serif'', ''mono'', ''bold'', ''medium'',
          ''light''])],
     anchored ''flex'', anchored ''grid'', anchored ''block'', anchored ''hidden'',
     anchored ''inline'',
     Seq [Bol, Lit ''w-'', Plus (Only digit_chars)],
     Seq [Bol, Lit ''h-'', Plus (Only digit_chars)],
     anchored ''w-full'', anchored ''h-full'', anchored ''min-w'', anchored ''max-w'',
     anchored ''border'', anchored ''rounded'', anchored ''shadow'',
     anchored ''items-'', anchored ''justify-'', anchored ''place-'', anchored ''gap-'',
     anchored ''absolute'', anchored ''relative'', anchored ''fixed'', anchored ''sticky'',
     anchored ''top-'', anchored ''bottom-'', anchored ''left-'', anchored ''right-'',
     anchored ''z-'',
     anchored ''opacity-'', anchored ''cursor-'', anchored ''pointer-events-'',
     anchored ''transition'', anchored ''duration-'', anchored ''ease-'',
     anchored ''hover:'', anchored ''focus:'', anchored ''active:'', anchored ''group-hover:'',
     anchored ''sm:'', anchored ''md:'', anchored ''lg:'', anchored ''xl:'', anchored ''2xl:'',
     anchored ''col-'', anchored ''row'', anchored ''container'', anchored ''btn-'',
     anchored ''alert-'', anchored ''card-'',
     anchored ''navbar-'', anchored ''nav-'', anchored ''dropdown-'', anchored ''modal-'',
     anchored ''tab-'', anchored ''form-'',
     anchored ''fa-'', anchored ''icon-'', anchored ''material-'', anchored ''bi-'',
     anchored ''ri-'', anchored ''bx-'',
     anchored ''js-'', anchored ''is-'', anchored ''has-'', anchored ''active'',
     anchored ''open'', anchored ''show'', anchored ''visible'',
     anchored ''animate__'', anchored ''aos-'', anchored ''fade'', anchored ''slide'',
     anchored ''zoom'',
     anchored ''u-'', anchored ''util-'', anchored ''helper-'']"

definition className_of :: "string \<Rightarrow> string" where
  "className_of cls = (if js_startsWith cls ''.'' then cls else CHR ''.'' # cls)"

definition cleanName_of :: "string \<Rightarrow> string" where
  "cleanName_of cls = (if js_startsWith cls ''.'' then drop 1 cls else cls)"

definition isUtility :: "string \<Rightarrow> bool" where
  "isUtility cls = list_ex (\<lambda>pattern. rx_test pattern (cleanName_of cls)) IGNORED_PATTERNS"

text \<open>The callback of \<open>classes.filter\<close>.\<close>

definition is_ghost :: "string list \<Rightarrow> string \<Rightarrow> bool" where
  "is_ghost defined cls =
     (if className_of cls \<in> set defined \<or> cls \<in> set defined then False
      else if isUtility cls then False
      else True)"

definition detectGhostClasses ::
  "target_info \<Rightarrow> css_result list \<Rightarrow> css_result list \<Rightarrow> inline_style list \<Rightarrow> ghost_report" where
  "detectGhostClasses targetInfo cssResults cssLibraryResults inlineStyles =
     (if length (classes targetInfo) = 0
      then \<lparr>ghostClasses = [], definedClasses = [], totalClasses = 0, hasGhosts = None\<rparr>
      else
        (let defined = scan_inline (classes targetInfo) inlineStyles
                         (scan_results (classes targetInfo) cssLibraryResults
                           (scan_results (classes targetInfo) cssResults []));
             ghosts = filter (is_ghost defined) (classes targetInfo)
         in \<lparr>ghostClasses = ghosts, definedClasses = defined,
              totalClasses = length (classes targetInfo),
              hasGhosts = Some (length ghosts > 0)\<rparr>))"

section \<open>The cascade order as the specification words it, and example candidates\<close>

definition spec_higher :: "nat list \<Rightarrow> nat list \<Rightarrow> bool" where
  "spec_higher a b = ((b, a) \<in> lexord {(x, y). x < y})"

definition spec_outranks :: "candidate \<Rightarrow> candidate \<Rightarrow> bool" where
  "spec_outranks a b =
     ((hasImportant a \<and> \<not> hasImportant b) \<or>
      (hasImportant a = hasImportant b \<and>
        (spec_higher (specificity a) (specificity b) \<or>
         (specificity a = specificity b \<and>
           (fileOrder a > fileOrder b \<or>
            (fileOrder a = fileOrder b \<and> globalOrder a > globalOrder b))))))"

definition rank_key :: "candidate \<Rightarrow> nat list" where
  "rank_key c = (if hasImportant c then 1 else 0) # specificity c @ [fileOrder c, globalOrder c]"

definition spec_losers_closest_first :: "candidate list \<Rightarrow> bool" where
  "spec_losers_closest_first ls = sorted_wrt spec_outranks ls"

definition example_low :: candidate where
  "example_low = \<lparr>selector = ''#menu'', specificity = [0, 1, 0, 0], decl_value = ''blue'',
     hasImportant = False, filePath = Some ''a.css'', fileOrder = 0, globalOrder = 0,
     startLine = 1, endLine = 1\<rparr>"

definition example_high :: candidate where
  "example_high = \<lparr>selector = ''#nav #menu'', specificity = [0, 2, 0, 0], decl_value = ''red'',
     hasImportant = False, filePath = Some ''b.css'', fileOrder = 1, globalOrder = 1,
     startLine = 1, endLine = 1\<rparr>"

definition example_important :: candidate where
  "example_important = \<lparr>selector = ''*'', specificity = [0, 0, 0, 0],
     decl_value = ''green !important'',
     hasImportant = True, filePath = Some ''c.css'', fileOrder = 2, globalOrder = 2,
     startLine = 3, endLine = 3\<rparr>"

definition example_unlisted :: candidate where
  "example_unlisted = \<lparr>selector = ''#menu'', specificity = [0, 1, 0, 0], decl_value = ''red'',
     hasImportant = False, filePath = Some ''vendor.css'', fileOrder = 999, globalOrder = 0,
     startLine = 1, endLine = 1\<rparr>"

definition example_listed :: candidate where
  "example_listed = \<lparr>selector = ''#menu'', specificity = [0, 1, 0, 0], decl_value = ''blue'',
     hasImportant = False, filePath = Some ''site.css'', fileOrder = 0, globalOrder = 1,
     startLine = 1, endLine = 1\<rparr>"

text \<open>
  What the first loop of \<open>analyzeConflicts\<close> maintains: every collected candidate has
  a four-term specificity, the file order of its path and the \<open>!important\<close> flag of its
  value, and the candidates of a property have distinct \<open>globalOrder\<close> numbers below
  the counter.
\<close>

definition candidate_well_formed :: "string list \<Rightarrow> candidate \<Rightarrow> bool" where
  "candidate_well_formed css c =
     (length (specificity c) = 4 \<and>
      fileOrder c = fileOrderValue css (filePath c) \<and>
      hasImportant c = hasImportant_value (decl_value c))"

definition collect_invariant :: "string list \<Rightarrow> collect_state \<Rightarrow> bool" where
  "collect_invariant css st =
     list_all (\<lambda>entry.
        list_all (\<lambda>c. candidate_well_formed css c \<and> globalOrder c < snd st) (snd entry) \<and>
        distinct (map globalOrder (snd entry)) \<and> snd entry \<noteq> [])
       (fst st)"

text \<open>
  Analysis results for the examples: three linked files that declare \<open>color\<close>, and a
  library function that answers for their selectors.
\<close>

definition example_library :: "string \<Rightarrow> library_result" where
  "example_library s =
     (if s = ''#menu'' then LibraryObject (Some 1) (Some 0) (Some 0)
      else if s = ''#nav #menu'' then LibraryObject (Some 2) (Some 0) (Some 0)
      else LibraryObject (Some 0) (Some 0) (Some 0))"

definition example_match :: "string \<Rightarrow> string \<Rightarrow> nat \<Rightarrow> css_match" where
  "example_match sel content line =
     \<lparr>match_selector = Some sel, match_content = Some content,
      match_matchedOn = MatchedOnArray [''id: menu''],
      match_startLine = line, match_endLine = line\<rparr>"

definition example_results :: "css_result list" where
  "example_results =
     [\<lparr>result_filePath = Some ''a.css'', result_file = None,
       result_matches = Some [example_match ''#menu'' ''#menu { color: blue; }'' 1]\<rparr>,
      \<lparr>result_filePath = Some ''b.css'', result_file = None,
       result_matches = Some [example_match ''#nav #menu'' ''#nav #menu { color: red }'' 1]\<rparr>,
      \<lparr>result_filePath = Some ''c.css'', result_file = None,
       result_matches = Some [example_match ''*'' ''* { color: green !important; }'' 3]\<rparr>]"

definition example_css :: "string list" where
  "example_css = [''a.css'', ''b.css'', ''c.css'']"

definition example_unlisted_results :: "css_result list" where
  "example_unlisted_results =
     [\<lparr>result_filePath = Some ''vendor.css'', result_file = None,
       result_matches = Some [example_match ''#menu'' ''#menu { color: red; }'' 1]\<rparr>,
      \<lparr>result_filePath = Some ''site.css'', result_file = None,
       result_matches = Some [example_match ''#menu'' ''#menu { color: blue; }'' 1]\<rparr>]"

text \<open>
  The declarations of the input in the order in which they are written: the results in
  the order of \<open>cssResults\<close>, in a result its matches in order, in a match the properties
  of its content in order. \<open>declarations_in_order\<close> numbers them from 0.
  \<open>push_declaration\<close> files a declaration under its property.
\<close>

definition declaration_candidate ::
  "string \<Rightarrow> nat list \<Rightarrow> string option \<Rightarrow> nat \<Rightarrow> css_match \<Rightarrow> string \<times> string \<Rightarrow>
     string \<times> candidate" where
  "declaration_candidate sel spec path order m entry =
     (fst entry,
      \<lparr>selector = sel, specificity = spec, decl_value = snd entry,
       hasImportant = hasImportant_value (snd entry), filePath = path,
       fileOrder = order, globalOrder = 0,
       startLine = match_startLine m, endLine = match_endLine m\<rparr>)"

definition match_declarations ::
  "(string \<Rightarrow> library_result) \<Rightarrow> string option \<Rightarrow> nat \<Rightarrow> css_match \<Rightarrow>
     (string \<times> candidate) list" where
  "match_declarations lib path order m =
     (let sel = or_empty (match_selector m)
      in map (declaration_candidate sel (calculateSpecificity lib (JSString sel)) path order m)
           (parseProperties (or_empty (match_content m))))"

definition result_declarations ::
  "(string \<Rightarrow> library_result) \<Rightarrow> string list \<Rightarrow> css_result \<Rightarrow> (string \<times> candidate) list" where
  "result_declarations lib css result =
     (let path = js_or (result_filePath result) (result_file result)
      in concat (map (match_declarations lib path (fileOrderValue css path))
                   (case result_matches result of None \<Rightarrow> [] | Some ms \<Rightarrow> ms)))"

fun number_from :: "nat \<Rightarrow> (string \<times> candidate) list \<Rightarrow> (string \<times> candidate) list" where
  "number_from n [] = []"
| "number_from n (d # ds) = (fst d, (snd d)\<lparr>globalOrder := n\<rparr>) # number_from (Suc n) ds"

definition declarations_in_order ::
  "(string \<Rightarrow> library_result) \<Rightarrow> css_result list \<Rightarrow> string list \<Rightarrow> (string \<times> candidate) list" where
  "declarations_in_order lib cssResults css =
     number_from 0 (concat (map (result_declarations lib css) cssResults))"

definition push_declaration ::
  "string \<times> candidate \<Rightarrow> (string \<times> candidate list) list \<Rightarrow> (string \<times> candidate list) list" where
  "push_declaration d entries = push_rule (fst d) (snd d) entries"

definition example_earlier :: candidate where
  "example_earlier = \<lparr>selector = ''#menu'', specificity = [0, 1, 0, 0], decl_value = ''red'',
     hasImportant = False, filePath = Some ''a.css'', fileOrder = 0, globalOrder = 0,
     startLine = 1, endLine = 1\<rparr>"

definition example_later :: candidate where
  "example_later = \<lparr>selector = ''#menu'', specificity = [0, 1, 0, 0], decl_value = ''blue'',
     hasImportant = False, filePath = Some ''a.css'', fileOrder = 0, globalOrder = 1,
     startLine = 9, endLine = 9\<rparr>"

definition example_same_file_results :: "css_result list" where
  "example_same_file_results =
     [\<lparr>result_filePath = Some ''a.css'', result_file = None,
       result_matches = Some [example_match ''#menu'' ''#menu { color: red; }'' 1,
                              example_match ''#menu'' ''#menu { color: blue; }'' 9]\<rparr>]"

section \<open>Example inputs of the ghost class detector\<close>

definition example_hashed_target :: target_info where
  "example_hashed_target = \<lparr>classes = [''Btn_primary_a1b2c''], ids = [], tagName = ''button'',
     dataAttributes = [], shadowParts = []\<rparr>"

definition example_empty_target :: target_info where
  "example_empty_target = \<lparr>classes = [], ids = [], tagName = ''div'',
     dataAttributes = [], shadowParts = []\<rparr>"

definition example_card_target :: target_info where
  "example_card_target = \<lparr>classes = [''card'', ''my-missing-class''], ids = [], tagName = ''div'',
     dataAttributes = [], shadowParts = []\<rparr>"

definition example_card_results :: "css_result list" where
  "example_card_results =
     [\<lparr>result_filePath = Some ''site.css'', result_file = None,
       result_matches = Some
         [\<lparr>match_selector = Some ''.card:hover'',
           match_content = Some ''.card:hover { color: red; }'',
           match_matchedOn = MatchedOnArray [''class: card''],
           match_startLine = 1, match_endLine = 1\<rparr>]\<rparr>]"

definition example_hero_target :: target_info where
  "example_hero_target = \<lparr>classes = [''.hero'', ''hero''], ids = [''hero''], tagName = ''div'',
     dataAttributes = [], shadowParts = []\<rparr>"

definition example_hero_results :: "css_result list" where
  "example_hero_results =
     [\<lparr>result_filePath = Some ''site.css'', result_file = None,
       result_matches = Some
         [\<lparr>match_selector = Some ''#hero'',
           match_content = Some ''#hero { color: red; }'',
           match_matchedOn = MatchedOnArray [''id: hero''],
           match_startLine = 1, match_endLine = 1\<rparr>]\<rparr>]"

section \<open>The class pattern as the specification words it, the patterns in closed form, and an example target\<close>

definition boundary_chars :: "char list" where
  "boundary_chars = space_chars @ '',:.[#''"

definition spec_class_occurs :: "string \<Rightarrow> string \<Rightarrow> bool" where
  "spec_class_occurs c text =
     (\<exists>pre post. text = pre @ CHR ''.'' # c @ post \<and>
        (post = [] \<or> hd post \<in> set boundary_chars))"

definition boundary_ahead :: rx where
  "boundary_ahead = Ahead (Alt [Chars (Only (space_chars @ '',:.[#'')), Eol])"

definition literal_atoms :: "string \<Rightarrow> rx list" where
  "literal_atoms w = map (\<lambda>c. Lit [c]) w"

definition class_target :: "string \<Rightarrow> target" where
  "class_target cls = \<lparr>target_type = ''class'', target_value = cls,
     pattern = Seq (Lit ''.'' # literal_atoms cls @ [boundary_ahead])\<rparr>"

definition id_target :: "string \<Rightarrow> target" where
  "id_target ident = \<lparr>target_type = ''id'', target_value = ident,
     pattern = Seq (Lit ''#'' # literal_atoms ident @ [boundary_ahead])\<rparr>"

definition tag_target :: "string \<Rightarrow> target" where
  "tag_target tag = \<lparr>target_type = ''tag'', target_value = tag,
     pattern = Seq (Alt [Bol, Chars (Only (space_chars @ '',>+~''))] # literal_atoms tag @
       [Ahead (Alt [Chars (Only (space_chars @ '',:.[#>+~'')), Eol])])\<rparr>"

definition data_attr_target :: "string \<Rightarrow> target" where
  "data_attr_target attr = \<lparr>target_type = ''data-attr'', target_value = attr,
     pattern = Seq (Lit ''['' # literal_atoms attr @
       [Alt [Seq [Opt (Chars (Only ''~|^$*'')), Lit ''=''], Lit '']'']])\<rparr>"

definition targets_of :: "target_info \<Rightarrow> target list" where
  "targets_of ti =
     map class_target (classes ti) @ map id_target (ids ti) @
     (if length (classes ti) > 0 \<or> length (ids ti) > 0 then [tag_target (tagName ti)] else []) @
     map data_attr_target (dataAttributes ti)"

definition example_btn_target :: target_info where
  "example_btn_target = \<lparr>classes = [''btn''], ids = [], tagName = ''button'',
     dataAttributes = [], shadowParts = []\<rparr>"

section \<open>Substitution as the specification words it, and example rules\<close>

text \<open>
  \<open>spec_substitute\<close> replaces every \<open>&\<close> by the branch; \<open>spec_branches\<close> are the
  comma-separated alternatives of a parent selector, trimmed. \<open>has_template\<close> holds of a
  text in which one of the replacement patterns \<open>$$\<close>, \<open>$&\<close>, \<open>$`\<close>, \<open>$'\<close> occurs.
  \<open>chain_clean\<close> holds of a rule when the outermost selector on its chain of directly
  enclosing rules contains no \<open>&\<close> and, wherever a selector with \<open>&\<close> is resolved on
  that chain, the resolved parent selector has no replacement pattern.
  \<open>no_rule_ancestor\<close> holds of a parent above which there is no rule.
\<close>

definition spec_substitute :: "string \<Rightarrow> string \<Rightarrow> string" where
  "spec_substitute selfSelector branch =
     concat (map (\<lambda>c. if c = CHR ''&'' then branch else [c]) selfSelector)"

definition spec_branches :: "string \<Rightarrow> string list" where
  "spec_branches parentSelector = map js_trim (js_split (CHR '','') parentSelector)"

fun has_template :: "string \<Rightarrow> bool" where
  "has_template [] = False"
| "has_template [c] = False"
| "has_template (c # d # r) =
     ((c = CHR ''$'' \<and> d \<in> set [CHR ''$'', CHR ''&'', CHR 0x60, CHR 0x27]) \<or>
      has_template (d # r))"

fun chain_clean :: "rule \<Rightarrow> bool" where
  "chain_clean (Rule s (RuleNode p)) =
     (chain_clean p \<and> (CHR ''&'' \<in> set s \<longrightarrow> \<not> has_template (resolveNestedSelector p)))"
| "chain_clean (Rule s _) = (CHR ''&'' \<notin> set s)"

fun no_rule_ancestor :: "parent \<Rightarrow> bool" where
  "no_rule_ancestor NoParent = True"
| "no_rule_ancestor RootNode = True"
| "no_rule_ancestor (AtRuleNode name params p) = no_rule_ancestor p"
| "no_rule_ancestor (RuleNode r) = False"

definition example_fan_out :: rule where
  "example_fan_out = Rule ''&--x'' (RuleNode (Rule ''.a, .b'' RootNode))"

definition example_attribute_parent :: rule where
  "example_attribute_parent = Rule ''&:hover'' (RuleNode (Rule ''a[href$=x], b'' RootNode))"

definition example_top_level_amp :: rule where
  "example_top_level_amp = Rule ''&.active'' RootNode"

definition example_amp_in_media :: rule where
  "example_amp_in_media =
     Rule ''&:hover'' (AtRuleNode ''media'' ''print'' (RuleNode (Rule ''.a'' RootNode)))"

section \<open>Properties of the selector resolver\<close>

lemma js_startsWith_single: "js_startsWith s [c] = (s \<noteq> [] \<and> hd s = c)"
  by (cases s) auto

lemma js_includes_char: "js_includes s [c] = (c \<in> set s)"
  by (induction s) (auto simp: js_startsWith_single)

lemma getSubstitution_plain:
  "\<not> has_template rep \<Longrightarrow> getSubstitution m pre post rep = rep"
  by (induction m pre post rep rule: getSubstitution.induct) auto

lemma replace_amp_from_plain:
  "\<not> has_template rep \<Longrightarrow> replace_amp_from pre s rep = spec_substitute s rep"
  by (induction s arbitrary: pre) (auto simp: spec_substitute_def getSubstitution_plain)

lemma js_replace_amp_plain:
  "\<not> has_template rep \<Longrightarrow> js_replace_amp s rep = spec_substitute s rep"
  by (simp add: js_replace_amp_def replace_amp_from_plain)

lemma has_template_Cons: "has_template t \<Longrightarrow> has_template (x # t)"
  by (cases t) auto

lemma has_template_prepend: "has_template t \<Longrightarrow> has_template (a @ t)"
  by (induction a) (auto intro: has_template_Cons)

lemma has_template_extend: "has_template t \<Longrightarrow> has_template (t @ b)"
  by (induction t rule: has_template.induct) auto

lemma has_template_within:
  "has_template t \<Longrightarrow> has_template (a @ t @ b)"
  by (intro has_template_prepend has_template_extend)

lemma js_trim_within: "\<exists>a b. s = a @ js_trim s @ b"
proof -
  let ?d = "dropWhile is_space s"
  let ?t = "rev (takeWhile is_space (rev ?d))"
  have "rev (takeWhile is_space (rev ?d) @ dropWhile is_space (rev ?d)) = rev (rev ?d)"
    by (simp only: takeWhile_dropWhile_id)
  then have 2: "js_trim s @ ?t = ?d"
    by (simp only: rev_append rev_rev_ident js_trim_def)
  have "takeWhile is_space s @ ?d = s" by (rule takeWhile_dropWhile_id)
  then have "s = takeWhile is_space s @ js_trim s @ ?t" unfolding 2 by (rule sym)
  then show ?thesis by blast
qed

lemma set_spec_substitute:
  "set (spec_substitute s b) \<subseteq> (set s - {CHR ''&''}) \<union> set b"
  by (induction s) (auto simp: spec_substitute_def split: if_splits)

lemma set_js_trim: "set (js_trim s) \<subseteq> set s"
proof -
  have "set (dropWhile is_space (rev (dropWhile is_space s))) \<subseteq> set (rev (dropWhile is_space s))"
    by (rule set_dropWhileD[THEN subsetI])
  also have "\<dots> \<subseteq> set s" using set_dropWhileD[of _ is_space s] by auto
  finally show ?thesis by (simp add: js_trim_def)
qed

lemma js_split_nonempty: "js_split sep s \<noteq> []"
  by (induction s) (auto split: list.splits)

lemma set_js_split: "w \<in> set (js_split sep s) \<Longrightarrow> set w \<subseteq> set s"
proof (induction s arbitrary: w)
  case Nil
  then show ?case by simp
next
  case (Cons c cs)
  show ?case
  proof (cases "c = sep")
    case True
    then show ?thesis using Cons by auto
  next
    case False
    obtain v vs where v: "js_split sep cs = v # vs"
      using js_split_nonempty[of sep cs] by (cases "js_split sep cs") auto
    then have "w = c # v \<or> w \<in> set vs" using Cons.prems False by simp
    then show ?thesis using Cons.IH[of v] Cons.IH[of w] v by auto
  qed
qed

lemma js_split_within: "w \<in> set (js_split sep s) \<Longrightarrow> \<exists>a b. s = a @ w @ b"
proof (induction s arbitrary: w)
  case Nil
  then show ?case by simp
next
  case (Cons c cs)
  obtain v vs where v: "js_split sep cs = v # vs"
    using js_split_nonempty[of sep cs] by (cases "js_split sep cs") auto
  have hv: "\<exists>a b. cs = a @ v @ b" using Cons.IH[of v] v by simp
  show ?case
  proof (cases "c = sep")
    case True
    then have "w = [] \<or> w \<in> set (js_split sep cs)" using Cons.prems by simp
    then show ?thesis
    proof
      assume "w = []"
      then have "c # cs = [] @ w @ (c # cs)" by simp
      then show ?thesis by blast
    next
      assume "w \<in> set (js_split sep cs)"
      then obtain a b where "cs = a @ w @ b" using Cons.IH by blast
      then have "c # cs = (c # a) @ w @ b" by simp
      then show ?thesis by blast
    qed
  next
    case False
    then have "w = c # v \<or> w \<in> set vs" using Cons.prems v by simp
    then show ?thesis
    proof
      assume w: "w = c # v"
      have "v = takeWhile (\<lambda>x. x \<noteq> sep) cs" using v
      proof (induction cs arbitrary: v vs)
        case Nil
        then show ?case by simp
      next
        case (Cons d ds)
        obtain u us where u: "js_split sep ds = u # us"
          using js_split_nonempty[of sep ds] by (cases "js_split sep ds") auto
        show ?case using Cons u by (auto split: if_splits)
      qed
      then have "cs = v @ dropWhile (\<lambda>x. x \<noteq> sep) cs" by simp
      then have "c # cs = [] @ w @ dropWhile (\<lambda>x. x \<noteq> sep) cs" using w by simp
      then show ?thesis by blast
    next
      assume "w \<in> set vs"
      then have "w \<in> set (js_split sep cs)" using v by simp
      then obtain a b where "cs = a @ w @ b" using Cons.IH by blast
      then have "c # cs = (c # a) @ w @ b" by simp
      then show ?thesis by blast
    qed
  qed
qed

lemma length_js_split: "length (js_split sep s) = Suc (length (filter (\<lambda>c. c = sep) s))"
proof (induction s)
  case Nil
  then show ?case by simp
next
  case (Cons c cs)
  obtain v vs where v: "js_split sep cs = v # vs"
    using js_split_nonempty[of sep cs] by (cases "js_split sep cs") auto
  then show ?case using Cons by auto
qed

lemma notin_js_join:
  "c \<notin> set sep \<Longrightarrow> (\<And>x. x \<in> set xs \<Longrightarrow> c \<notin> set x) \<Longrightarrow> c \<notin> set (js_join sep xs)"
  by (induction sep xs rule: js_join.induct) auto

lemma set_spec_branches: "b \<in> set (spec_branches s) \<Longrightarrow> set b \<subseteq> set s"
  unfolding spec_branches_def using set_js_trim set_js_split by fastforce

lemma spec_branches_plain:
  assumes "\<not> has_template s" "b \<in> set (spec_branches s)"
  shows "\<not> has_template b"
proof
  assume t: "has_template b"
  obtain w where w: "w \<in> set (js_split (CHR '','') s)" "b = js_trim w"
    using assms(2) unfolding spec_branches_def by auto
  obtain a1 b1 where 1: "w = a1 @ b @ b1" using js_trim_within[of w] w(2) by auto
  obtain a2 b2 where 2: "s = a2 @ w @ b2" using js_split_within[OF w(1)] by auto
  have "has_template w" unfolding 1 using t by (rule has_template_within)
  then have "has_template s" unfolding 2 by (rule has_template_within)
  then show False using assms(1) by simp
qed

lemma resolve_amp_fan_out:
  assumes amp: "CHR ''&'' \<in> set selfSelector"
      and comma: "CHR '','' \<in> set (resolveNestedSelector parentRule)"
      and plain: "\<not> has_template (resolveNestedSelector parentRule)"
  shows "resolveNestedSelector (Rule selfSelector (RuleNode parentRule)) =
           js_join '', '' (map (spec_substitute selfSelector)
                            (spec_branches (resolveNestedSelector parentRule)))"
proof -
  let ?P = "resolveNestedSelector parentRule"
  have m: "map (\<lambda>p. js_replace_amp selfSelector p) (spec_branches ?P) =
        map (spec_substitute selfSelector) (spec_branches ?P)"
  proof (rule map_cong[OF refl])
    fix b assume "b \<in> set (spec_branches ?P)"
    then have "\<not> has_template b" using spec_branches_plain[OF plain] by blast
    then show "js_replace_amp selfSelector b = spec_substitute selfSelector b"
      by (rule js_replace_amp_plain)
  qed
  have e: "resolveNestedSelector (Rule selfSelector (RuleNode parentRule)) =
      js_join '', '' (map (\<lambda>p. js_replace_amp selfSelector p) (spec_branches ?P))"
    using amp comma unfolding spec_branches_def
    by (simp add: js_includes_char Let_def del: map_map)
  show ?thesis unfolding e m by (rule refl)
qed

lemma clean_resolve:
  "chain_clean r \<Longrightarrow> CHR ''&'' \<notin> set (resolveNestedSelector r)"
proof (induction r rule: resolveNestedSelector.induct)
  case (1 s p)
  let ?P = "resolveNestedSelector p"
  have P: "CHR ''&'' \<notin> set ?P" using 1 by simp
  have br: "\<And>b. b \<in> set (spec_branches ?P) \<Longrightarrow> CHR ''&'' \<notin> set b"
    using set_spec_branches P by blast
  have sub: "\<And>b. CHR ''&'' \<notin> set b \<Longrightarrow> CHR ''&'' \<notin> set (spec_substitute s b)"
    using set_spec_substitute[of s] by blast
  show ?case
  proof (cases "CHR ''&'' \<in> set s")
    case True
    then have plain: "\<not> has_template ?P" using "1.prems" by simp
    show ?thesis
    proof (cases "CHR '','' \<in> set ?P")
      case c: True
      have e: "resolveNestedSelector (Rule s (RuleNode p)) =
                 js_join '', '' (map (spec_substitute s) (spec_branches ?P))"
        using resolve_amp_fan_out[OF True c plain] .
      have x: "\<And>x. x \<in> set (map (spec_substitute s) (spec_branches ?P)) \<Longrightarrow>
               CHR ''&'' \<notin> set x"
        using br sub by auto
      have "CHR ''&'' \<notin> set (js_join '', '' (map (spec_substitute s) (spec_branches ?P)))"
        by (rule notin_js_join) (use x in simp_all)
      then show ?thesis unfolding e by simp
    next
      case c: False
      have "resolveNestedSelector (Rule s (RuleNode p)) = spec_substitute s ?P"
        using True c plain by (simp add: js_includes_char js_replace_amp_plain)
      then show ?thesis using sub[OF P] by simp
    qed
  next
    case False
    show ?thesis
    proof (cases "CHR '','' \<in> set ?P")
      case c: True
      have e: "resolveNestedSelector (Rule s (RuleNode p)) =
                 js_join '', '' (map (\<lambda>b. b @ '' '' @ s) (spec_branches ?P))"
        using False c unfolding spec_branches_def
        by (simp add: js_includes_char del: map_map)
      have x: "\<And>x. x \<in> set (map (\<lambda>b. b @ '' '' @ s) (spec_branches ?P)) \<Longrightarrow>
               CHR ''&'' \<notin> set x"
        using br False by auto
      have "CHR ''&'' \<notin> set (js_join '', '' (map (\<lambda>b. b @ '' '' @ s) (spec_branches ?P)))"
        by (rule notin_js_join) (use x in simp_all)
      then show ?thesis unfolding e by simp
    next
      case c: False
      have "resolveNestedSelector (Rule s (RuleNode p)) = ?P @ '' '' @ s"
        using False c by (simp add: js_includes_char)
      then show ?thesis using P False by simp
    qed
  qed
qed simp_all

lemma resolve_without_rule_ancestor:
  "no_rule_ancestor par \<Longrightarrow> resolveNestedSelector (Rule s par) = s"
  by (cases par) simp_all

lemma example_fan_out_resolved: "resolveNestedSelector example_fan_out = ''.a--x, .b--x''"
  by (simp add: example_fan_out_def js_trim_def is_space_def js_replace_amp_def)

text \<open>
  Why the amended claim excludes replacement patterns in the parent selector: the parent
  text is the replacement template of \<open>replace\<close>, and \<open>$&\<close> in it stands for the matched
  \<open>&\<close>.
\<close>

lemma dollar_template_is_expanded:
  "resolveNestedSelector (Rule ''& b'' (RuleNode (Rule ''a[title=$&]'' RootNode))) =
     ''a[title=&] b''"
  by (simp add: js_replace_amp_def)

text \<open>
  Not covered by the amended claim: a rule inside an at-rule inside a rule. The comment
  of the resolver promises to unwrap parent rules, but its guard looks at the immediate
  parent only, so here the enclosing rule \<open>.a\<close> is not unwrapped.
\<close>

lemma amp_under_at_rule_kept:
  "resolveNestedSelector example_amp_in_media = ''&:hover''"
  by (simp add: example_amp_in_media_def)

text \<open>
  Claim C3 as stated says that no resolved selector contains an unresolved \<open>&\<close>. A rule
  at the top level has no parent selector to put in: \<open>&.active\<close> at the top level
  resolves to itself.
\<close>

theorem unresolved_amp_counterexample:
  "resolveNestedSelector example_top_level_amp = ''&.active'' \<and>
   CHR ''&'' \<in> set (resolveNestedSelector example_top_level_amp)"
  by (simp add: example_top_level_amp_def)

text \<open>
  Claim C3, amended. For a rule directly inside a parent rule, with \<open>&\<close> in its own
  selector and, in the resolved parent selector, a comma and none of the replacement
  patterns \<open>$$\<close>, \<open>$&\<close>, \<open>$`\<close>, \<open>$'\<close>, the resolver returns one string: the resolved
  selectors of the parent branches, in parent order and joined by \<open>, \<close>, each being the
  rule's selector with every \<open>&\<close> replaced by the branch. There are as many branches as
  commas plus one. \<open>.a, .b\<close> with \<open>&--x\<close> gives \<open>.a--x, .b--x\<close>. The resolved selector
  of a rule contains no \<open>&\<close> when the outermost selector on its chain of directly
  enclosing rules contains no \<open>&\<close> and no resolved parent selector that a selector
  with \<open>&\<close> is resolved against has a replacement pattern. A rule above which there is
  no rule resolves to its own selector.
\<close>

theorem nested_amp_fans_out:
  assumes amp: "CHR ''&'' \<in> set selfSelector"
      and comma: "CHR '','' \<in> set (resolveNestedSelector parentRule)"
      and plain: "\<not> has_template (resolveNestedSelector parentRule)"
  shows "resolveNestedSelector (Rule selfSelector (RuleNode parentRule)) =
           js_join '', '' (map (spec_substitute selfSelector)
                            (spec_branches (resolveNestedSelector parentRule))) \<and>
         length (spec_branches (resolveNestedSelector parentRule)) =
           Suc (length (filter (\<lambda>c. c = CHR '','') (resolveNestedSelector parentRule))) \<and>
         resolveNestedSelector example_fan_out = ''.a--x, .b--x'' \<and>
         (\<forall>r. chain_clean r \<longrightarrow> CHR ''&'' \<notin> set (resolveNestedSelector r)) \<and>
         (\<forall>s par. no_rule_ancestor par \<longrightarrow> resolveNestedSelector (Rule s par) = s)"
proof -
  have 1: "resolveNestedSelector (Rule selfSelector (RuleNode parentRule)) =
           js_join '', '' (map (spec_substitute selfSelector)
                            (spec_branches (resolveNestedSelector parentRule)))"
    by (rule resolve_amp_fan_out[OF amp comma plain])
  have 2: "length (spec_branches (resolveNestedSelector parentRule)) =
           Suc (length (filter (\<lambda>c. c = CHR '','') (resolveNestedSelector parentRule)))"
    by (simp add: spec_branches_def length_js_split)
  have 4: "\<forall>r. chain_clean r \<longrightarrow> CHR ''&'' \<notin> set (resolveNestedSelector r)"
    using clean_resolve by blast
  have 5: "\<forall>s par. no_rule_ancestor par \<longrightarrow> resolveNestedSelector (Rule s par) = s"
    using resolve_without_rule_ancestor by blast
  show ?thesis by (intro conjI) (rule 1, rule 2, rule example_fan_out_resolved, rule 4, rule 5)
qed

text \<open>
  The example of the specification, \<open>&--x\<close> inside \<open>.a, .b\<close>, and a parent with an
  attribute selector, \<open>&:hover\<close> inside \<open>a[href$=x], b\<close>.
\<close>

theorem nested_amp_fans_out_witness:
  "CHR ''&'' \<in> set ''&--x'' \<and>
   CHR '','' \<in> set (resolveNestedSelector (Rule ''.a, .b'' RootNode)) \<and>
   \<not> has_template (resolveNestedSelector (Rule ''.a, .b'' RootNode)) \<and>
   spec_branches (resolveNestedSelector (Rule ''.a, .b'' RootNode)) = [''.a'', ''.b''] \<and>
   resolveNestedSelector (Rule ''&--x'' (RuleNode (Rule ''.a, .b'' RootNode))) =
     js_join '', '' [spec_substitute ''&--x'' ''.a'', spec_substitute ''&--x'' ''.b''] \<and>
   chain_clean example_fan_out \<and>
   CHR ''&'' \<notin> set (resolveNestedSelector example_fan_out) \<and>
   CHR ''&'' \<in> set ''&:hover'' \<and>
   CHR '','' \<in> set (resolveNestedSelector (Rule ''a[href$=x], b'' RootNode)) \<and>
   \<not> has_template (resolveNestedSelector (Rule ''a[href$=x], b'' RootNode)) \<and>
   resolveNestedSelector example_attribute_parent = ''a[href$=x]:hover, b:hover'' \<and>
   chain_clean example_attribute_parent"
proof -
  have amp: "CHR ''&'' \<in> set ''&--x''" by simp
  have comma: "CHR '','' \<in> set (resolveNestedSelector (Rule ''.a, .b'' RootNode))" by simp
  have plain: "\<not> has_template (resolveNestedSelector (Rule ''.a, .b'' RootNode))" by simp
  have b: "spec_branches (resolveNestedSelector (Rule ''.a, .b'' RootNode)) = [''.a'', ''.b'']"
    by (simp add: spec_branches_def js_trim_def is_space_def)
  have c: "chain_clean example_fan_out" by (simp add: example_fan_out_def)
  note t = nested_amp_fans_out[OF amp comma plain]
  have 1: "resolveNestedSelector (Rule ''&--x'' (RuleNode (Rule ''.a, .b'' RootNode))) =
     js_join '', '' [spec_substitute ''&--x'' ''.a'', spec_substitute ''&--x'' ''.b'']"
    using t[THEN conjunct1] b by simp
  have 2: "CHR ''&'' \<notin> set (resolveNestedSelector example_fan_out)"
    using t[THEN conjunct2, THEN conjunct2, THEN conjunct2, THEN conjunct1] c by blast
  have amp': "CHR ''&'' \<in> set ''&:hover''" by simp
  have comma': "CHR '','' \<in> set (resolveNestedSelector (Rule ''a[href$=x], b'' RootNode))"
    by simp
  have plain': "\<not> has_template (resolveNestedSelector (Rule ''a[href$=x], b'' RootNode))"
    by simp
  have b': "spec_branches (resolveNestedSelector (Rule ''a[href$=x], b'' RootNode)) =
              [''a[href$=x]'', ''b'']"
    by (simp add: spec_branches_def js_trim_def is_space_def)
  have 3: "resolveNestedSelector example_attribute_parent = ''a[href$=x]:hover, b:hover''"
    using nested_amp_fans_out[OF amp' comma' plain', THEN conjunct1] b'
    by (simp add: example_attribute_parent_def spec_substitute_def)
  have c': "chain_clean example_attribute_parent"
    by (simp add: example_attribute_parent_def)
  show ?thesis
    by (intro conjI)
       (rule amp, rule comma, rule plain, rule b, rule 1, rule c, rule 2,
        rule amp', rule comma', rule plain', rule 3, rule c')
qed

section \<open>Properties of the target matcher and of calculateSpecificity\<close>

lemma regex_atoms_escapeRegex: "regex_atoms (escapeRegex s) = Some (map (\<lambda>c. Lit [c]) s)"
proof (induction s)
  case Nil
  then show ?case by (simp add: escapeRegex_def)
next
  case (Cons c s)
  have e: "escapeRegex (c # s) =
     (if c \<in> set regex_syntax_chars then [CHR 0x5C, c] else [c]) @ escapeRegex s"
    by (simp add: escapeRegex_def)
  show ?case
  proof (cases "c \<in> set regex_syntax_chars")
    case True
    then show ?thesis using Cons e by simp
  next
    case False
    then have "c \<noteq> CHR 0x5C" by (auto simp: regex_syntax_chars_def)
    then show ?thesis using Cons e False by simp
  qed
qed

lemma js_startsWith_iff: "js_startsWith s w = (\<exists>post. s = w @ post)"
  by (induction s w rule: js_startsWith.induct) auto

lemma js_startsWith_drop: "js_startsWith s w \<Longrightarrow> s = w @ drop (length w) s"
  by (auto simp: js_startsWith_iff)

lemma rx_run_seq_literals:
  "rx_run_seq (map (\<lambda>c. Lit [c]) w @ rs) (b, s) =
     (if js_startsWith s w then rx_run_seq rs (b \<and> w = [], drop (length w) s) else [])"
proof (induction w arbitrary: b s)
  case Nil
  then show ?case by simp
next
  case (Cons c w)
  show ?case
  proof (cases s)
    case Nil
    then show ?thesis by simp
  next
    case (Cons d t)
    then show ?thesis using Cons.IH[of False t] by simp
  qed
qed

lemma rx_search_iff:
  assumes "\<And>b t. (rx_run r (b, t) \<noteq> []) = P t"
  shows "rx_search r b s = (\<exists>pre post. s = pre @ post \<and> P post)"
proof (induction s arbitrary: b)
  case Nil
  then show ?case using assms by simp
next
  case (Cons c s)
  have "(\<exists>pre post. c # s = pre @ post \<and> P post) = (P (c # s) \<or> (\<exists>pre post. s = pre @ post \<and> P post))"
    (is "?L = ?R")
  proof
    assume ?L
    then obtain pre post where p: "c # s = pre @ post" "P post" by blast
    show ?R
    proof (cases pre)
      case Nil
      then show ?thesis using p by simp
    next
      case (Cons x xs)
      then have "s = xs @ post" using p by simp
      then show ?thesis using p(2) by blast
    qed
  next
    assume ?R
    then show ?L
    proof
      assume "P (c # s)"
      then have "c # s = [] @ (c # s) \<and> P (c # s)" by simp
      then show ?L by blast
    next
      assume "\<exists>pre post. s = pre @ post \<and> P post"
      then obtain pre post where "s = pre @ post" "P post" by blast
      then have "c # s = (c # pre) @ post \<and> P post" by simp
      then show ?L by blast
    qed
  qed
  then show ?case using Cons assms by simp
qed

lemma run_boundary_ahead:
  "(rx_run boundary_ahead (b, t) \<noteq> []) = (t = [] \<or> hd t \<in> set boundary_chars)"
  by (cases t) (auto simp: boundary_ahead_def boundary_chars_def)

lemma class_pattern_eq:
  "class_pattern c = Some (Seq (Lit ''.'' # map (\<lambda>c. Lit [c]) c @ [boundary_ahead]))"
  by (simp add: class_pattern_def regex_atoms_escapeRegex boundary_ahead_def)

lemma run_class_pattern:
  "(rx_run (Seq (Lit ''.'' # map (\<lambda>c. Lit [c]) c @ [boundary_ahead])) (b, t) \<noteq> []) =
     (\<exists>post. t = CHR ''.'' # c @ post \<and> (post = [] \<or> hd post \<in> set boundary_chars))"
proof (cases t)
  case Nil
  then show ?thesis by simp
next
  case (Cons d u)
  show ?thesis
  proof (cases "d = CHR ''.'' \<and> js_startsWith u c")
    case True
    then obtain post where post: "u = c @ post" by (auto simp: js_startsWith_iff)
    have "rx_run boundary_ahead (False, post) \<noteq> [] = (post = [] \<or> hd post \<in> set boundary_chars)"
      by (rule run_boundary_ahead)
    moreover have "rx_run boundary_ahead (False, post) \<noteq> [] \<Longrightarrow>
        rx_run boundary_ahead (False, post) = [(False, post)]"
      by (simp add: boundary_ahead_def split: if_splits)
    ultimately show ?thesis using Cons True post
      by (auto simp: rx_run_seq_literals)
  next
    case False
    then show ?thesis using Cons
      by (auto simp: rx_run_seq_literals js_startsWith_iff)
  qed
qed

lemma test_class_pattern:
  "rx_test (Seq (Lit ''.'' # map (\<lambda>c. Lit [c]) c @ [boundary_ahead])) s = spec_class_occurs c s"
proof -
  let ?P = "\<lambda>t. \<exists>post. t = CHR ''.'' # c @ post \<and> (post = [] \<or> hd post \<in> set boundary_chars)"
  have "rx_search (Seq (Lit ''.'' # map (\<lambda>c. Lit [c]) c @ [boundary_ahead])) True s =
          (\<exists>pre post. s = pre @ post \<and> ?P post)"
    by (rule rx_search_iff) (rule run_class_pattern)
  then show ?thesis unfolding rx_test_def spec_class_occurs_def by auto
qed

lemma those_map_Some: "those (map Some xs) = Some xs"
  by (induction xs) auto

lemma buildTargetSelectors_total: "buildTargetSelectors ti = Some (targets_of ti)"
proof -
  have c: "(\<lambda>cls. make_target ''class'' cls (class_pattern cls)) = (\<lambda>cls. Some (class_target cls))"
    by (simp add: make_target_def class_pattern_def regex_atoms_escapeRegex class_target_def
        literal_atoms_def boundary_ahead_def)
  have i: "(\<lambda>ident. make_target ''id'' ident (id_pattern ident)) = (\<lambda>ident. Some (id_target ident))"
    by (simp add: make_target_def id_pattern_def regex_atoms_escapeRegex id_target_def
        literal_atoms_def boundary_ahead_def)
  have t: "make_target ''tag'' (tagName ti) (tag_pattern (tagName ti)) = Some (tag_target (tagName ti))"
    by (simp add: make_target_def tag_pattern_def regex_atoms_escapeRegex tag_target_def
        literal_atoms_def)
  have d: "(\<lambda>attr. make_target ''data-attr'' attr (data_attr_pattern attr)) =
           (\<lambda>attr. Some (data_attr_target attr))"
    by (simp add: make_target_def data_attr_pattern_def regex_atoms_escapeRegex
        data_attr_target_def literal_atoms_def)
  have "buildTargetSelectors ti = those (map Some (targets_of ti))"
    unfolding buildTargetSelectors_def targets_of_def c i t d by (simp add: comp_def)
  then show ?thesis by (simp add: those_map_Some)
qed

lemma reason_in_matchedOn:
  "(r \<in> set (matchedOn (checkRuleMatch sel ts))) =
     (\<exists>t \<in> set ts. target_hits sel (expandModernPseudoClasses sel) t \<and>
        r = target_type t @ '': '' @ target_value t)"
  by (auto simp: checkRuleMatch_def Let_def)

lemma matches_iff_reasons:
  "matches (checkRuleMatch sel ts) = (matchedOn (checkRuleMatch sel ts) \<noteq> [])"
  by (simp add: checkRuleMatch_def Let_def)

lemma matches_iff_pattern:
  "matches (checkRuleMatch sel ts) =
     (\<exists>t \<in> set ts. rx_test (pattern t) sel \<or>
         rx_test (pattern t) (expandModernPseudoClasses sel))"
proof -
  have "(filter (target_hits sel (expandModernPseudoClasses sel)) ts \<noteq> []) =
        (\<exists>t \<in> set ts. target_hits sel (expandModernPseudoClasses sel) t)"
    by (simp add: filter_empty_conv)
  then show ?thesis by (simp add: checkRuleMatch_def Let_def target_hits_def)
qed

lemma reasons_of_hitting_targets:
  "matchedOn (checkRuleMatch sel ts) =
     map (\<lambda>t. target_type t @ '': '' @ target_value t)
       (filter (\<lambda>t. rx_test (pattern t) sel \<or>
            rx_test (pattern t) (expandModernPseudoClasses sel)) ts)"
proof -
  have "target_hits sel (expandModernPseudoClasses sel) =
        (\<lambda>t. rx_test (pattern t) sel \<or> rx_test (pattern t) (expandModernPseudoClasses sel))"
    by (rule ext) (simp add: target_hits_def)
  then show ?thesis by (simp add: checkRuleMatch_def Let_def)
qed

lemma class_reason_only_from_class:
  assumes "t \<in> set (targets_of ti)" "''class: '' @ c = target_type t @ '': '' @ target_value t"
  shows "t = class_target c"
  using assms unfolding targets_of_def
  by (auto simp: class_target_def id_target_def tag_target_def data_attr_target_def split: if_splits)

lemma hits_class_target:
  "target_hits sel ex (class_target c) = (spec_class_occurs c sel \<or> spec_class_occurs c ex)"
  by (simp add: target_hits_def class_target_def literal_atoms_def test_class_pattern)

lemmas target_eval = targets_of_def class_target_def id_target_def tag_target_def
  data_attr_target_def literal_atoms_def boundary_ahead_def space_chars_def
  checkRuleMatch_def target_hits_def rx_test_def expandModernPseudoClasses_def
  pseudoFunctions_def

lemma btn_group_not_matched:
  "checkRuleMatch ''.btn-group'' (targets_of example_btn_target) =
     \<lparr>matches = False, matchedOn = []\<rparr>"
  by (simp add: target_eval example_btn_target_def)

lemma btn_group_hover_not_matched:
  "checkRuleMatch ''.toolbar .btn-group:hover'' (targets_of example_btn_target) =
     \<lparr>matches = False, matchedOn = []\<rparr>"
  by (simp add: target_eval example_btn_target_def)

lemma btn_hover_matched:
  "checkRuleMatch ''.btn:hover'' (targets_of example_btn_target) =
     \<lparr>matches = True, matchedOn = [''class: btn'']\<rparr>"
  by (simp add: target_eval example_btn_target_def)

lemma btn_bracket_matched:
  "checkRuleMatch ''.btn['' (targets_of example_btn_target) =
     \<lparr>matches = True, matchedOn = [''class: btn'']\<rparr>"
  by (simp add: target_eval example_btn_target_def)

lemma is_btn_matched:
  "checkRuleMatch '':is(.btn)'' (targets_of example_btn_target) =
     \<lparr>matches = True, matchedOn = [''class: btn'']\<rparr>"
  by (simp add: target_eval example_btn_target_def)

text \<open>
  Claim C6. For a class \<open>c\<close> of the target, \<open>buildTargetSelectors\<close> builds its patterns
  and \<open>checkRuleMatch\<close> reports the reason \<open>class: c\<close> exactly when the selector, or its
  pseudo-class-expanded text, contains \<open>.\<close> followed by \<open>c\<close> followed by the end of the
  text or by white space, \<open>,\<close>, \<open>:\<close>, \<open>.\<close>, \<open>[\<close> or \<open>#\<close>. For the target class
  \<open>btn\<close>, selectors in which only \<open>.btn-group\<close> occurs report nothing.
\<close>

theorem class_reason_iff_boundary_occurrence:
  assumes "c \<in> set (classes ti)"
  shows "(\<exists>ts. buildTargetSelectors ti = Some ts \<and>
           ((''class: '' @ c \<in> set (matchedOn (checkRuleMatch sel ts))) =
            (spec_class_occurs c sel \<or> spec_class_occurs c (expandModernPseudoClasses sel)))) \<and>
         (\<exists>ts. buildTargetSelectors example_btn_target = Some ts \<and>
            checkRuleMatch ''.btn-group'' ts = \<lparr>matches = False, matchedOn = []\<rparr> \<and>
            checkRuleMatch ''.toolbar .btn-group:hover'' ts = \<lparr>matches = False, matchedOn = []\<rparr>)"
proof -
  let ?ex = "expandModernPseudoClasses sel"
  have m: "class_target c \<in> set (targets_of ti)"
    using assms by (simp add: targets_of_def)
  have "(''class: '' @ c \<in> set (matchedOn (checkRuleMatch sel (targets_of ti)))) =
          target_hits sel ?ex (class_target c)"
  proof
    assume "''class: '' @ c \<in> set (matchedOn (checkRuleMatch sel (targets_of ti)))"
    then obtain t where t: "t \<in> set (targets_of ti)" "target_hits sel ?ex t"
        "''class: '' @ c = target_type t @ '': '' @ target_value t"
      unfolding reason_in_matchedOn by blast
    then show "target_hits sel ?ex (class_target c)"
      using class_reason_only_from_class[OF t(1) t(3)] by simp
  next
    assume h: "target_hits sel ?ex (class_target c)"
    have "''class: '' @ c = target_type (class_target c) @ '': '' @ target_value (class_target c)"
      by (simp add: class_target_def)
    then show "''class: '' @ c \<in> set (matchedOn (checkRuleMatch sel (targets_of ti)))"
      unfolding reason_in_matchedOn using m h by blast
  qed
  then have a: "(''class: '' @ c \<in> set (matchedOn (checkRuleMatch sel (targets_of ti)))) =
            (spec_class_occurs c sel \<or> spec_class_occurs c ?ex)"
    by (simp add: hits_class_target)
  show ?thesis
    using a buildTargetSelectors_total[of ti] buildTargetSelectors_total[of example_btn_target]
      btn_group_not_matched btn_group_hover_not_matched
    by simp
qed

text \<open>
  The selector \<open>.btn:hover\<close> and a target with the class \<open>btn\<close>.
\<close>

theorem class_reason_iff_boundary_occurrence_witness:
  "''btn'' \<in> set (classes example_btn_target) \<and>
   ''class: btn'' \<in> set (matchedOn (checkRuleMatch ''.btn:hover'' (targets_of example_btn_target))) \<and>
   (spec_class_occurs ''btn'' ''.btn:hover'' \<or>
    spec_class_occurs ''btn'' (expandModernPseudoClasses ''.btn:hover''))"
proof -
  have h: "''btn'' \<in> set (classes example_btn_target)"
    by (simp add: example_btn_target_def)
  have r: "''class: btn'' \<in> set (matchedOn (checkRuleMatch ''.btn:hover'' (targets_of example_btn_target)))"
    by (simp add: btn_hover_matched)
  from class_reason_iff_boundary_occurrence[OF h, of "''.btn:hover''"]
  obtain ts where ts: "buildTargetSelectors example_btn_target = Some ts"
    "(''class: '' @ ''btn'' \<in> set (matchedOn (checkRuleMatch ''.btn:hover'' ts))) =
       (spec_class_occurs ''btn'' ''.btn:hover'' \<or>
        spec_class_occurs ''btn'' (expandModernPseudoClasses ''.btn:hover''))"
    by blast
  have "ts = targets_of example_btn_target"
    using ts(1) buildTargetSelectors_total[of example_btn_target] by simp
  then show ?thesis using h r ts(2) by simp
qed

lemma expand_empty: "expandModernPseudoClasses [] = []"
  by (simp add: expandModernPseudoClasses_def pseudoFunctions_def)

lemma no_hit_on_empty:
  assumes "tagName ti \<noteq> []" "t \<in> set (targets_of ti)"
  shows "\<not> target_hits [] [] t"
proof -
  have tag: "rx_run_seq (literal_atoms (tagName ti) @ rs) (b, []) = []" for rs b
    unfolding literal_atoms_def rx_run_seq_literals using assms(1)
    by (cases "tagName ti") auto
  have "\<not> target_hits [] [] (tag_target (tagName ti))"
    by (simp add: target_hits_def tag_target_def rx_test_def tag)
  moreover have "\<not> target_hits [] [] (class_target c)" for c
    by (simp add: target_hits_def class_target_def rx_test_def)
  moreover have "\<not> target_hits [] [] (id_target c)" for c
    by (simp add: target_hits_def id_target_def rx_test_def)
  moreover have "\<not> target_hits [] [] (data_attr_target c)" for c
    by (simp add: target_hits_def data_attr_target_def rx_test_def)
  ultimately show ?thesis using assms(2) unfolding targets_of_def
    by (auto split: if_splits)
qed

lemma empty_selector_no_match:
  assumes "tagName ti \<noteq> []"
  shows "checkRuleMatch [] (targets_of ti) = \<lparr>matches = False, matchedOn = []\<rparr>"
proof -
  have "filter (target_hits [] []) (targets_of ti) = []"
    using no_hit_on_empty[OF assms] by (simp add: filter_empty_conv)
  then show ?thesis by (simp add: checkRuleMatch_def expand_empty)
qed

text \<open>
  Claim C7 as stated says that an unparseable selector yields no match. The matcher does
  not parse: \<open>.btn[\<close>, with its unterminated attribute bracket, is no selector, and
  yet it matches a target with the class \<open>btn\<close>.
\<close>

theorem unparseable_selector_matches_counterexample:
  "buildTargetSelectors example_btn_target = Some (targets_of example_btn_target) \<and>
   checkRuleMatch ''.btn['' (targets_of example_btn_target) =
     \<lparr>matches = True, matchedOn = [''class: btn'']\<rparr>"
  using buildTargetSelectors_total[of example_btn_target] btn_bracket_matched by simp

text \<open>
  Claim C7, amended. Building the patterns never fails; for a target with a tag name the
  empty selector yields no match and no reasons; for any text, parseable or not,
  \<open>matches\<close> is true exactly when the pattern of some target is found in the text or in
  its pseudo-class-expanded form, the reasons are those of the targets whose pattern is
  found, in target order, and \<open>matches\<close> is true exactly when there is a reason; and
  \<open>calculateSpecificity\<close> returns the zero vector for an input that is not a string, for
  the empty string, and whenever the library throws or returns a falsy value. The models
  have no branch in which an exception escapes.
\<close>

theorem matcher_and_specificity_total:
  assumes "tagName ti \<noteq> []"
  shows "(\<exists>ts. buildTargetSelectors ti = Some ts \<and>
            checkRuleMatch [] ts = \<lparr>matches = False, matchedOn = []\<rparr>) \<and>
         (\<forall>sel ts. matches (checkRuleMatch sel ts) = (matchedOn (checkRuleMatch sel ts) \<noteq> [])) \<and>
         (\<forall>lib v. (\<forall>s. v \<noteq> JSString s) \<longrightarrow> calculateSpecificity lib v = [0, 0, 0, 0]) \<and>
         (\<forall>lib. calculateSpecificity lib (JSString []) = [0, 0, 0, 0]) \<and>
         (\<forall>lib s. lib s = LibraryThrows \<or> lib s = LibraryFalsy \<longrightarrow>
            calculateSpecificity lib (JSString s) = [0, 0, 0, 0]) \<and>
         (\<forall>sel ts. matches (checkRuleMatch sel ts) =
            (\<exists>t \<in> set ts. rx_test (pattern t) sel \<or>
                rx_test (pattern t) (expandModernPseudoClasses sel))) \<and>
         (\<forall>sel ts. matchedOn (checkRuleMatch sel ts) =
            map (\<lambda>t. target_type t @ '': '' @ target_value t)
              (filter (\<lambda>t. rx_test (pattern t) sel \<or>
                   rx_test (pattern t) (expandModernPseudoClasses sel)) ts))"
proof -
  have a: "\<exists>ts. buildTargetSelectors ti = Some ts \<and>
            checkRuleMatch [] ts = \<lparr>matches = False, matchedOn = []\<rparr>"
    using buildTargetSelectors_total[of ti] empty_selector_no_match[OF assms] by simp
  have b: "\<forall>sel ts. matches (checkRuleMatch sel ts) = (matchedOn (checkRuleMatch sel ts) \<noteq> [])"
    by (simp add: matches_iff_reasons)
  have c: "\<forall>lib v. (\<forall>s. v \<noteq> JSString s) \<longrightarrow> calculateSpecificity lib v = [0, 0, 0, 0]"
    by (auto simp: calculateSpecificity_def split: js_value.splits)
  have d: "\<forall>lib. calculateSpecificity lib (JSString []) = [0, 0, 0, 0]"
    by (simp add: calculateSpecificity_def)
  have e: "\<forall>lib s. lib s = LibraryThrows \<or> lib s = LibraryFalsy \<longrightarrow>
            calculateSpecificity lib (JSString s) = [0, 0, 0, 0]"
    by (auto simp: calculateSpecificity_def)
  have f: "\<forall>sel ts. matches (checkRuleMatch sel ts) =
            (\<exists>t \<in> set ts. rx_test (pattern t) sel \<or>
                rx_test (pattern t) (expandModernPseudoClasses sel))"
    by (simp add: matches_iff_pattern)
  have g: "\<forall>sel ts. matchedOn (checkRuleMatch sel ts) =
            map (\<lambda>t. target_type t @ '': '' @ target_value t)
              (filter (\<lambda>t. rx_test (pattern t) sel \<or>
                   rx_test (pattern t) (expandModernPseudoClasses sel)) ts)"
    by (simp add: reasons_of_hitting_targets)
  show ?thesis by (intro conjI) (rule a, rule b, rule c, rule d, rule e, rule f, rule g)
qed

text \<open>
  A target with the class \<open>btn\<close> and the tag name \<open>button\<close>, the selector \<open>.btn[\<close>, and a
  library that always throws.
\<close>

theorem matcher_and_specificity_total_witness:
  "tagName example_btn_target \<noteq> [] \<and>
   checkRuleMatch [] (targets_of example_btn_target) = \<lparr>matches = False, matchedOn = []\<rparr> \<and>
   calculateSpecificity (\<lambda>s. LibraryThrows) (JSString ''.btn['') = [0, 0, 0, 0] \<and>
   calculateSpecificity (\<lambda>s. LibraryThrows) (JSNumber 7) = [0, 0, 0, 0] \<and>
   class_target ''btn'' \<in> set (targets_of example_btn_target) \<and>
   rx_test (pattern (class_target ''btn'')) ''.btn['' \<and>
   matches (checkRuleMatch ''.btn['' (targets_of example_btn_target)) \<and>
   \<not> matches (checkRuleMatch ''.btn-group'' (targets_of example_btn_target))"
proof -
  have h: "tagName example_btn_target \<noteq> []" by (simp add: example_btn_target_def)
  note t = matcher_and_specificity_total[OF h]
  from t[THEN conjunct1]
  obtain ts where ts: "buildTargetSelectors example_btn_target = Some ts"
      "checkRuleMatch [] ts = \<lparr>matches = False, matchedOn = []\<rparr>"
    by blast
  have n: "\<forall>lib v. (\<forall>s. v \<noteq> JSString s) \<longrightarrow> calculateSpecificity lib v = [0, 0, 0, 0]"
    using t[THEN conjunct2, THEN conjunct2, THEN conjunct1] .
  have e: "\<forall>lib s. lib s = LibraryThrows \<or> lib s = LibraryFalsy \<longrightarrow>
            calculateSpecificity lib (JSString s) = [0, 0, 0, 0]"
    using t[THEN conjunct2, THEN conjunct2, THEN conjunct2, THEN conjunct2, THEN conjunct1] .
  have f: "\<forall>sel ts. matches (checkRuleMatch sel ts) =
            (\<exists>t \<in> set ts. rx_test (pattern t) sel \<or>
                rx_test (pattern t) (expandModernPseudoClasses sel))"
    using t[THEN conjunct2, THEN conjunct2, THEN conjunct2, THEN conjunct2, THEN conjunct2,
            THEN conjunct1] .
  have q: "ts = targets_of example_btn_target"
    using ts(1) buildTargetSelectors_total[of example_btn_target] by simp
  have 0: "checkRuleMatch [] (targets_of example_btn_target) = \<lparr>matches = False, matchedOn = []\<rparr>"
    using ts(2) q by simp
  have 1: "calculateSpecificity (\<lambda>s. LibraryThrows) (JSNumber 7) = [0, 0, 0, 0]"
    using n by simp
  have 2: "calculateSpecificity (\<lambda>s. LibraryThrows) (JSString ''.btn['') = [0, 0, 0, 0]"
    using e by simp
  have 3: "class_target ''btn'' \<in> set (targets_of example_btn_target)"
    by (simp add: targets_of_def example_btn_target_def)
  have 4: "rx_test (pattern (class_target ''btn'')) ''.btn[''"
    by (simp add: class_target_def literal_atoms_def boundary_ahead_def space_chars_def rx_test_def)
  have 5: "matches (checkRuleMatch ''.btn['' (targets_of example_btn_target))"
    using f 3 4 by blast
  have x: "expandModernPseudoClasses ''.btn-group'' = ''.btn-group''"
    by (simp add: expandModernPseudoClasses_def pseudoFunctions_def)
  have y: "\<not> rx_test (pattern u) ''.btn-group''" if "u \<in> set (targets_of example_btn_target)" for u
    using that
    by (auto simp: targets_of_def example_btn_target_def class_target_def tag_target_def
        literal_atoms_def boundary_ahead_def space_chars_def rx_test_def)
  have 6: "\<not> matches (checkRuleMatch ''.btn-group'' (targets_of example_btn_target))"
    using f x y by simp
  show ?thesis by (intro conjI) (rule h, rule 0, rule 2, rule 1, rule 3, rule 4, rule 5, rule 6)
qed

lemma scan_append:
  "scan st (xs @ ys) = (case scan st xs of None \<Rightarrow> None | Some st' \<Rightarrow> scan st' ys)"
  by (induction xs arbitrary: st) (auto split: option.splits)

lemma scan_skipped:
  assumes "CHR ''('' \<notin> set arg" "CHR '')'' \<notin> set arg" "mode st = Skipped n"
  shows "scan st arg = Some st"
  using assms by (induction arg) (auto simp: scan_step_def)

lemmas scan_eval = spec_calculate_def scan_step_def scan_top_def scan_finish_def is_ident_char_def
  is_space_def digit_chars_def calculateSpecificity_def or_zero_def

lemma where_zero:
  assumes "CHR ''('' \<notin> set arg" "CHR '')'' \<notin> set arg"
  shows "spec_calculate ('':where('' @ arg @ '')'') = LibraryObject (Some 0) (Some 0) (Some 0)"
proof -
  let ?st = "\<lparr>count_A = 0, count_B = 0, count_C = 0, mode = Skipped 1, open_parens = 0\<rparr>"
  have 1: "scan \<lparr>count_A = 0, count_B = 0, count_C = 0, mode = Top, open_parens = 0\<rparr> '':where('' = Some ?st"
    by (simp add: scan_step_def scan_top_def is_ident_char_def is_space_def digit_chars_def)
  have 2: "scan ?st arg = Some ?st" using scan_skipped[OF assms, of ?st 1] by simp
  have 3: "scan ?st '')'' = Some \<lparr>count_A = 0, count_B = 0, count_C = 0, mode = Top, open_parens = 0\<rparr>"
    by (simp add: scan_step_def)
  let ?top = "\<lparr>count_A = 0, count_B = 0, count_C = 0, mode = Top, open_parens = 0\<rparr>"
  have "scan ?top ('':where('' @ (arg @ '')'')) =
          (case scan ?top '':where('' of None \<Rightarrow> None | Some st' \<Rightarrow> scan st' (arg @ '')''))"
    by (rule scan_append)
  also have "\<dots> = scan ?st (arg @ '')'')" by (simp only: 1 option.case)
  also have "\<dots> = (case scan ?st arg of None \<Rightarrow> None | Some st' \<Rightarrow> scan st' '')'')"
    by (rule scan_append)
  also have "\<dots> = scan ?st '')''" by (simp only: 2 option.case)
  also have "\<dots> = Some ?top" by (rule 3)
  finally have "scan ?top ('':where('' @ (arg @ '')'')) = Some ?top" .
  then show ?thesis by (simp add: spec_calculate_def scan_finish_def)
qed

lemma calculate_is: "spec_calculate '':is(.a, .b)'' = LibraryObject (Some 0) (Some 2) (Some 0)"
  by (simp add: scan_eval)

lemma calculate_id_cls: "spec_calculate ''#id .cls'' = LibraryObject (Some 1) (Some 1) (Some 0)"
  by (simp add: scan_eval)

lemma calculate_unterminated: "spec_calculate ''.btn['' = LibraryThrows"
  by (simp add: scan_eval)

text \<open>
  Claim C4. With the library function as the specification describes it,
  \<open>:where(.a, .b)\<close> has specificity (0,0,0,0), as has \<open>:where(...)\<close> with any
  argument free of parentheses; \<open>:is(.a, .b)\<close> has a class term of at least 1;
  \<open>#id .cls\<close> has (0,1,1,0). Whatever the library returns and whatever the input is,
  the result has four terms and its first (inline-style) term is 0.
\<close>

theorem specificity_examples_and_inline_zero:
  "calculateSpecificity spec_calculate (JSString '':where(.a, .b)'') = [0, 0, 0, 0] \<and>
   (\<forall>arg. CHR ''('' \<notin> set arg \<and> CHR '')'' \<notin> set arg \<longrightarrow>
      calculateSpecificity spec_calculate (JSString ('':where('' @ arg @ '')'')) = [0, 0, 0, 0]) \<and>
   calculateSpecificity spec_calculate (JSString '':is(.a, .b)'') ! 2 \<ge> 1 \<and>
   calculateSpecificity spec_calculate (JSString ''#id .cls'') = [0, 1, 1, 0] \<and>
   (\<forall>lib v. length (calculateSpecificity lib v) = 4 \<and> calculateSpecificity lib v ! 0 = 0)"
proof -
  have w: "\<forall>arg. CHR ''('' \<notin> set arg \<and> CHR '')'' \<notin> set arg \<longrightarrow>
      calculateSpecificity spec_calculate (JSString ('':where('' @ arg @ '')'')) = [0, 0, 0, 0]"
  proof (intro allI impI)
    fix arg :: string
    assume "CHR ''('' \<notin> set arg \<and> CHR '')'' \<notin> set arg"
    then have "spec_calculate ('':where('' @ arg @ '')'') = LibraryObject (Some 0) (Some 0) (Some 0)"
      using where_zero by blast
    then show "calculateSpecificity spec_calculate (JSString ('':where('' @ arg @ '')'')) = [0, 0, 0, 0]"
      by (simp add: calculateSpecificity_def or_zero_def)
  qed
  have "CHR ''('' \<notin> set ''.a, .b'' \<and> CHR '')'' \<notin> set ''.a, .b''" by simp
  then have w0: "calculateSpecificity spec_calculate (JSString ('':where('' @ ''.a, .b'' @ '')'')) = [0, 0, 0, 0]"
    using w by blast
  have i: "calculateSpecificity spec_calculate (JSString '':is(.a, .b)'') ! 2 \<ge> 1"
    by (simp add: calculateSpecificity_def calculate_is or_zero_def)
  have c: "calculateSpecificity spec_calculate (JSString ''#id .cls'') = [0, 1, 1, 0]"
    by (simp add: calculateSpecificity_def calculate_id_cls or_zero_def)
  have z: "\<forall>lib v. length (calculateSpecificity lib v) = 4 \<and> calculateSpecificity lib v ! 0 = 0"
    by (auto simp: calculateSpecificity_def split: js_value.splits library_result.splits)
  show ?thesis using w w0 i c z by simp
qed

text \<open>
  The argument \<open>.x > .y\<close> of \<open>:where\<close>.
\<close>

theorem specificity_examples_and_inline_zero_witness:
  "CHR ''('' \<notin> set ''.x > .y'' \<and> CHR '')'' \<notin> set ''.x > .y'' \<and>
   calculateSpecificity spec_calculate (JSString '':where(.x > .y)'') = [0, 0, 0, 0]"
proof -
  have h: "CHR ''('' \<notin> set ''.x > .y'' \<and> CHR '')'' \<notin> set ''.x > .y''" by simp
  have "calculateSpecificity spec_calculate (JSString ('':where('' @ ''.x > .y'' @ '')'')) = [0, 0, 0, 0]"
    using specificity_examples_and_inline_zero h by blast
  then show ?thesis using h by simp
qed

section \<open>Properties of the cascade engine\<close>

lemma length4: "length (a::nat list) = 4 \<Longrightarrow> \<exists>a0 a1 a2 a3. a = [a0, a1, a2, a3]"
  by (cases a; cases "tl a"; cases "tl (tl a)"; cases "tl (tl (tl a))"; cases "tl (tl (tl (tl a)))") auto

lemma compareSpecificity_4:
  "compareSpecificity [a0, a1, a2, a3] [b0, b1, b2, b3] =
     (if a0 > b0 then 1 else if a0 < b0 then - 1
      else if a1 > b1 then 1 else if a1 < b1 then - 1
      else if a2 > b2 then 1 else if a2 < b2 then - 1
      else if a3 > b3 then 1 else if a3 < b3 then - 1 else 0)"
  unfolding compareSpecificity_def
  apply (subst compareSpecificity_from.simps)
  apply (subst compareSpecificity_from.simps)
  apply (subst compareSpecificity_from.simps)
  apply (subst compareSpecificity_from.simps)
  apply (subst compareSpecificity_from.simps)
  apply (simp add: js_index_def js_gt_def js_lt_def)
  done

lemma compareSpecificity_lex:
  assumes "length a = 4" "length b = 4"
  shows "compareSpecificity a b =
     (if spec_higher a b then 1 else if spec_higher b a then - 1 else 0)"
proof -
  obtain a0 a1 a2 a3 where a: "a = [a0, a1, a2, a3]" using length4[OF assms(1)] by blast
  obtain b0 b1 b2 b3 where b: "b = [b0, b1, b2, b3]" using length4[OF assms(2)] by blast
  have l: "\<And>x y. (x < y \<or> x = y \<and> P) = (if (x::nat) < y then True else if y < x then False else P)" for P
    by auto
  show ?thesis unfolding a b compareSpecificity_4 spec_higher_def
    by (cases "a0 < b0"; cases "b0 < a0"; cases "a1 < b1"; cases "b1 < a1";
        cases "a2 < b2"; cases "b2 < a2"; cases "a3 < b3"; cases "b3 < a3"; simp)
qed

lemma compareSpecificity_zero:
  assumes "length a = 4" "length b = 4"
  shows "compareSpecificity a b = 0 \<longleftrightarrow> a = b"
proof -
  obtain a0 a1 a2 a3 where a: "a = [a0, a1, a2, a3]" using length4[OF assms(1)] by blast
  obtain b0 b1 b2 b3 where b: "b = [b0, b1, b2, b3]" using length4[OF assms(2)] by blast
  show ?thesis unfolding a b compareSpecificity_4 by auto
qed

lemma cascade_compare_outranks:
  assumes "length (specificity a) = 4" "length (specificity b) = 4"
  shows "(cascade_compare a b > 0) = spec_outranks a b"
  using compareSpecificity_zero[OF assms] compareSpecificity_lex[OF assms]
  unfolding cascade_compare_def spec_outranks_def Let_def
  by (auto split: if_splits)

lemma lexord_append_same_length:
  "length xs = length ys \<Longrightarrow>
     ((xs @ us, ys @ vs) \<in> lexord r) =
     ((xs, ys) \<in> lexord r \<or> (xs = ys \<and> (us, vs) \<in> lexord r))"
  by (induction xs ys rule: list_induct2) auto

lemma outranks_rank_key:
  assumes "length (specificity a) = 4" "length (specificity b) = 4"
  shows "spec_outranks a b = (rank_key b < rank_key a)"
  using assms
  unfolding spec_outranks_def rank_key_def list_less_def spec_higher_def
  by (auto simp: lexord_append_same_length)

lemma rank_key_eq:
  assumes "length (specificity a) = 4" "length (specificity b) = 4" "rank_key a = rank_key b"
  shows "globalOrder a = globalOrder b"
  using assms unfolding rank_key_def by (auto split: if_splits)

lemma cascade_compare_le:
  assumes "length (specificity a) = 4" "length (specificity b) = 4"
  shows "(cascade_compare a b \<le> 0) = (rank_key a \<le> rank_key b)"
  using cascade_compare_outranks[OF assms] outranks_rank_key[OF assms] by auto

lemma set_insert_by: "set (insert_by cmp x ys) = insert x (set ys)"
  by (induction ys) auto

lemma mset_insert_by: "mset (insert_by cmp x ys) = add_mset x (mset ys)"
  by (induction ys) auto

lemma mset_js_sort: "mset (js_sort cmp xs) = mset xs"
  unfolding js_sort_def by (induction xs) (auto simp: mset_insert_by)

lemma set_js_sort: "set (js_sort cmp xs) = set xs"
  using mset_js_sort[of cmp xs] by (metis set_mset_mset)

lemma length_js_sort: "length (js_sort cmp xs) = length xs"
  using mset_js_sort[of cmp xs] by (metis size_mset)

lemma sorted_insert_by:
  fixes key :: "'a \<Rightarrow> 'k::linorder"
  assumes "\<forall>y \<in> set ys. (cmp x y \<le> 0) = (key x \<le> key y)"
      and "sorted (map key ys)"
  shows "sorted (map key (insert_by cmp x ys))"
  using assms
proof (induction ys)
  case Nil
  then show ?case by simp
next
  case (Cons y ys)
  show ?case
  proof (cases "cmp x y \<le> 0")
    case True
    then have "key x \<le> key y" using Cons.prems(1) by simp
    then show ?thesis using True Cons.prems(2) by auto
  next
    case False
    then have "key y \<le> key x" using Cons.prems(1) by auto
    moreover have "sorted (map key (insert_by cmp x ys))"
      using Cons by simp
    ultimately show ?thesis using False Cons.prems(2)
      by (auto simp: set_insert_by)
  qed
qed

lemma sorted_js_sort:
  fixes key :: "'a \<Rightarrow> 'k::linorder"
  assumes "\<forall>x \<in> set xs. \<forall>y \<in> set xs. (cmp x y \<le> 0) = (key x \<le> key y)"
  shows "sorted (map key (js_sort cmp xs))"
  using assms unfolding js_sort_def
proof (induction xs)
  case Nil
  then show ?case by simp
next
  case (Cons x xs)
  have s: "set (foldr (insert_by cmp) xs []) = set xs"
    using set_js_sort[of cmp xs] unfolding js_sort_def .
  have "sorted (map key (foldr (insert_by cmp) xs []))" using Cons by simp
  then show ?case using Cons.prems s by (simp add: sorted_insert_by)
qed

lemma sorted_cascade:
  assumes "\<forall>c \<in> set rules. length (specificity c) = 4"
  shows "sorted (map rank_key (js_sort cascade_compare rules))"
  by (rule sorted_js_sort) (use assms cascade_compare_le in blast)

lemma strict_sorted_cascade:
  assumes "\<forall>c \<in> set rules. length (specificity c) = 4"
      and "distinct (map globalOrder rules)"
  shows "sorted_wrt (\<lambda>a b. spec_outranks b a) (js_sort cascade_compare rules)"
proof -
  let ?s = "js_sort cascade_compare rules"
  have d: "distinct (map globalOrder ?s)"
    using assms(2) mset_js_sort[of cascade_compare rules]
    by (metis distinct_map mset_eq_imp_distinct_iff set_js_sort mset_map)
  have l: "\<forall>c \<in> set ?s. length (specificity c) = 4" using assms(1) by (simp add: set_js_sort)
  have "sorted_wrt (\<lambda>a b. rank_key a \<le> rank_key b \<and> globalOrder a \<noteq> globalOrder b) ?s"
    using sorted_cascade[OF assms(1)] d
    by (simp add: sorted_wrt_map distinct_map sorted_wrt_iff_nth_less distinct_conv_nth nth_eq_iff_index_eq)
  then show ?thesis
  proof (rule sorted_wrt_mono_rel[rotated])
    fix a b assume "a \<in> set ?s" "b \<in> set ?s" "rank_key a \<le> rank_key b \<and> globalOrder a \<noteq> globalOrder b"
    then show "spec_outranks b a"
      using l outranks_rank_key[of b a] rank_key_eq[of a b] by (metis order_neq_le_trans)
  qed
qed

lemmas examples_defs = example_low_def example_high_def example_important_def

lemma sorted_split:
  assumes "s \<noteq> []" "sorted_wrt R s"
  shows "sorted_wrt R (butlast s) \<and> (\<forall>l \<in> set (butlast s). R l (last s))"
proof -
  have "s = butlast s @ [last s]" using assms(1) by simp
  then have "sorted_wrt R (butlast s @ [last s])" using assms(2) by simp
  then show ?thesis unfolding sorted_wrt_append by simp
qed

lemma resolve_property_sorted:
  assumes len4: "\<forall>c \<in> set rules. length (specificity c) = 4"
      and dist: "distinct (map globalOrder rules)"
      and two: "2 \<le> length rules"
  shows "\<exists>d. resolve_property rules = Some d \<and>
             mset (winner d # losers d) = mset rules \<and>
             (\<forall>l \<in> set (losers d). spec_outranks (winner d) l) \<and>
             sorted_wrt (\<lambda>a b. spec_outranks b a) (losers d) \<and>
             hasConflict d"
proof -
  let ?s = "js_sort cascade_compare rules"
  let ?d = "\<lparr>winner = last ?s, losers = butlast ?s, hasConflict = (length (butlast ?s) > 0)\<rparr>"
  have ne: "?s \<noteq> []" using two length_js_sort[of cascade_compare rules] by auto
  have r: "resolve_property rules = Some ?d"
    using two unfolding resolve_property_def Let_def by simp
  have "mset (last ?s # butlast ?s) = mset (butlast ?s @ [last ?s])" by simp
  also have "\<dots> = mset ?s" using ne by simp
  finally have m: "mset (winner ?d # losers ?d) = mset rules" by (simp add: mset_js_sort)
  have sp: "sorted_wrt (\<lambda>a b. spec_outranks b a) (butlast ?s) \<and>
            (\<forall>l \<in> set (butlast ?s). spec_outranks (last ?s) l)"
    using sorted_split[OF ne strict_sorted_cascade[OF len4 dist]] .
  have hc: "hasConflict ?d" using two length_js_sort[of cascade_compare rules] by simp
  show ?thesis using r m sp hc by (intro exI[of _ ?d]) simp
qed

lemma outranks_irrefl: "\<not> spec_outranks a a"
  unfolding spec_outranks_def spec_higher_def by (simp add: lexord_irreflexive)

lemma js_gt_lt: "js_gt x y = js_lt y x"
  by (simp add: js_gt_def js_lt_def split: option.splits)

lemma js_gt_not_lt: "js_gt x y \<Longrightarrow> \<not> js_lt x y"
  by (auto simp: js_gt_def js_lt_def split: option.splits)

lemma compareSpecificity_from_flip:
  "compareSpecificity_from i b a = - compareSpecificity_from i a b"
proof (induction i a b rule: compareSpecificity_from.induct)
  case (1 i a b)
  have L: "compareSpecificity_from i a b =
     (if i < 4 then
        (if js_gt (js_index a i) (js_index b i) then 1
         else if js_lt (js_index a i) (js_index b i) then - 1
         else compareSpecificity_from (i + 1) a b)
      else 0)"
    by (rule compareSpecificity_from.simps)
  have R: "compareSpecificity_from i b a =
     (if i < 4 then
        (if js_gt (js_index b i) (js_index a i) then 1
         else if js_lt (js_index b i) (js_index a i) then - 1
         else compareSpecificity_from (i + 1) b a)
      else 0)"
    by (rule compareSpecificity_from.simps)
  show ?case
  proof (cases "i < 4")
    case False
    then show ?thesis unfolding L R by simp
  next
    case True
    show ?thesis
    proof (cases "js_gt (js_index a i) (js_index b i)")
      case g: True
      then have "js_lt (js_index b i) (js_index a i)" "\<not> js_gt (js_index b i) (js_index a i)"
        using js_gt_lt js_gt_not_lt by blast+
      then show ?thesis unfolding L R using True g by simp
    next
      case g: False
      show ?thesis
      proof (cases "js_lt (js_index a i) (js_index b i)")
        case l: True
        then have "js_gt (js_index b i) (js_index a i)" using js_gt_lt by blast
        then show ?thesis unfolding L R using True g l by simp
      next
        case l: False
        have "\<not> js_gt (js_index b i) (js_index a i)" "\<not> js_lt (js_index b i) (js_index a i)"
          using g l js_gt_lt by blast+
        moreover have "compareSpecificity_from (i + 1) b a = - compareSpecificity_from (i + 1) a b"
          using 1 True g l by simp
        ultimately show ?thesis
          by (subst L, subst R) (simp add: True g l)
      qed
    qed
  qed
qed

lemma fold_fileOrder_absent:
  "f \<notin> set css \<Longrightarrow> fold record_index (enumerate n css) m f = m f"
  by (induction css arbitrary: n m) (auto simp: record_index_def)

lemma fold_fileOrder_present:
  "f \<in> set css \<Longrightarrow>
     \<exists>i. n \<le> i \<and> i < n + length css \<and> css ! (i - n) = f \<and>
         fold record_index (enumerate n css) m f = Some i"
proof (induction css arbitrary: n m)
  case Nil
  then show ?case by simp
next
  case (Cons x xs)
  show ?case
  proof (cases "f \<in> set xs")
    case True
    from Cons.IH[OF True, of "Suc n" "record_index (n, x) m"]
    obtain i where i: "Suc n \<le> i" "i < Suc n + length xs" "xs ! (i - Suc n) = f"
      "fold record_index (enumerate (Suc n) xs) (record_index (n, x) m) f = Some i"
      by blast
    have "i - n = Suc (i - Suc n)" using i(1) by arith
    then have "(x # xs) ! (i - n) = f" using i(3) by simp
    then show ?thesis using i by (intro exI[of _ i]) simp
  next
    case False
    then have "f = x" using Cons.prems by simp
    have a: "fold record_index (enumerate (Suc n) xs) (record_index (n, x) m) f = record_index (n, x) m f"
      using False by (rule fold_fileOrder_absent)
    have b: "record_index (n, x) m f = Some n" using \<open>f = x\<close> by (simp add: record_index_def)
    have c: "fold record_index (enumerate n (x # xs)) m f = Some n" using a b by simp
    show ?thesis using c \<open>f = x\<close> by (intro exI[of _ n]) simp
  qed
qed

lemma fileOrderValue_unlisted:
  "property_key f \<notin> set css \<Longrightarrow> fileOrderValue css f = 999"
  unfolding fileOrderValue_def fileOrder_table_def
  by (simp add: fold_fileOrder_absent)

lemma fileOrderValue_listed:
  "property_key f \<in> set css \<Longrightarrow>
     fileOrderValue css f < length css \<and> css ! fileOrderValue css f = property_key f"
  unfolding fileOrderValue_def fileOrder_table_def
  using fold_fileOrder_present[of "property_key f" css 0 Map.empty] by auto

lemma fileOrderValue_position:
  assumes "distinct css" "i < length css"
  shows "fileOrderValue css (Some (css ! i)) = i"
proof -
  let ?j = "fileOrderValue css (Some (css ! i))"
  have "?j < length css" "css ! ?j = css ! i"
    using fileOrderValue_listed[of "Some (css ! i)" css] assms(2)
    by (simp_all add: property_key_def)
  then show ?thesis using assms nth_eq_iff_index_eq[of css ?j i] by simp
qed

lemma push_rule_entries:
  "(k, rs) \<in> set (push_rule p c entries) \<Longrightarrow>
     (k, rs) \<in> set entries \<or>
     (k = p \<and> (rs = [c] \<or> (\<exists>rs0. (k, rs0) \<in> set entries \<and> rs = rs0 @ [c])))"
  by (induction entries) (auto split: if_splits)

lemma collect_invariant_push:
  assumes inv: "collect_invariant css (entries, n)"
      and wf: "candidate_well_formed css c"
      and ord: "globalOrder c = n"
  shows "collect_invariant css (push_rule p c entries, Suc n)"
proof -
  have prev: "\<And>k0 rs0. (k0, rs0) \<in> set entries \<Longrightarrow>
      (\<forall>x \<in> set rs0. candidate_well_formed css x \<and> globalOrder x < n) \<and>
      distinct (map globalOrder rs0) \<and> rs0 \<noteq> []"
    using inv unfolding collect_invariant_def list_all_iff by fastforce
  have "\<forall>entry \<in> set (push_rule p c entries).
          (\<forall>x \<in> set (snd entry). candidate_well_formed css x \<and> globalOrder x < Suc n) \<and>
          distinct (map globalOrder (snd entry)) \<and> snd entry \<noteq> []"
  proof
    fix entry assume e: "entry \<in> set (push_rule p c entries)"
    obtain k rs where kr: "entry = (k, rs)" by (cases entry)
    from push_rule_entries[of k rs p c entries] e kr
    consider (old) "(k, rs) \<in> set entries" | (new) "rs = [c]"
      | (app) rs0 where "(k, rs0) \<in> set entries" "rs = rs0 @ [c]"
      by auto
    then show "(\<forall>x \<in> set (snd entry). candidate_well_formed css x \<and> globalOrder x < Suc n) \<and>
               distinct (map globalOrder (snd entry)) \<and> snd entry \<noteq> []"
    proof cases
      case old
      then show ?thesis using prev[OF old] kr by auto
    next
      case new
      then show ?thesis using wf ord kr by simp
    next
      case app
      then show ?thesis using prev[OF app(1)] wf ord kr by auto
    qed
  qed
  then show ?thesis unfolding collect_invariant_def list_all_iff by simp
qed

lemma collect_invariant_declaration:
  assumes "collect_invariant css st" "length spec = 4" "order = fileOrderValue css path"
  shows "collect_invariant css (collect_declaration sel spec path order m entry st)"
proof -
  obtain entries n where st: "st = (entries, n)" by (cases st)
  let ?c = "\<lparr>selector = sel, specificity = spec, decl_value = snd entry,
         hasImportant = hasImportant_value (snd entry), filePath = path,
         fileOrder = order, globalOrder = n,
         startLine = match_startLine m, endLine = match_endLine m\<rparr>"
  have "collect_invariant css (push_rule (fst entry) ?c entries, Suc n)"
    by (rule collect_invariant_push)
       (use assms st in \<open>simp_all add: candidate_well_formed_def\<close>)
  then show ?thesis by (simp add: collect_declaration_def st)
qed

lemma fold_invariant:
  assumes "\<And>x s. P s \<Longrightarrow> P (f x s)" "P s"
  shows "P (fold f xs s)"
  using assms(2) by (induction xs arbitrary: s) (auto intro: assms(1))

lemma calculateSpecificity_length: "length (calculateSpecificity lib v) = 4"
  by (auto simp: calculateSpecificity_def split: js_value.splits library_result.splits)

lemma collect_invariant_match:
  assumes "collect_invariant css st" "order = fileOrderValue css path"
  shows "collect_invariant css (collect_match lib path order m st)"
  unfolding collect_match_def Let_def
  by (rule fold_invariant[where P = "collect_invariant css", rotated])
     (simp_all add: assms collect_invariant_declaration calculateSpecificity_length)

lemma collect_invariant_result:
  assumes "collect_invariant css st"
  shows "collect_invariant css (collect_result lib css result st)"
  unfolding collect_result_def Let_def
  by (rule fold_invariant[where P = "collect_invariant css", rotated])
     (simp_all add: assms collect_invariant_match)

lemma collect_rules_invariant:
  assumes "(prop, rules) \<in> set (collect_rules lib cssResults css)"
  shows "(\<forall>c \<in> set rules. candidate_well_formed css c) \<and> distinct (map globalOrder rules) \<and>
         rules \<noteq> []"
proof -
  have "collect_invariant css ([], 0)" by (simp add: collect_invariant_def)
  then have "collect_invariant css (fold (collect_result lib css) cssResults ([], 0))"
    by (rule fold_invariant[where P = "collect_invariant css", rotated])
       (rule collect_invariant_result)
  then show ?thesis using assms
    unfolding collect_invariant_def collect_rules_def list_all_iff by fastforce
qed

lemma analyzeConflicts_entries:
  "((prop, d) \<in> set (analyzeConflicts lib cssResults css)) =
     (\<exists>rules. (prop, rules) \<in> set (collect_rules lib cssResults css) \<and>
        resolve_property rules = Some d)"
proof -
  have "\<And>xs. ((prop, d) \<in> set (List.map_filter
           (\<lambda>entry. map_option (Pair (fst entry)) (resolve_property (snd entry))) xs)) =
        (\<exists>rules. (prop, rules) \<in> set xs \<and> resolve_property rules = Some d)"
  proof -
    fix xs :: "(string \<times> candidate list) list"
    show "((prop, d) \<in> set (List.map_filter
           (\<lambda>entry. map_option (Pair (fst entry)) (resolve_property (snd entry))) xs)) =
        (\<exists>rules. (prop, rules) \<in> set xs \<and> resolve_property rules = Some d)"
      by (induction xs) (auto split: option.splits)
  qed
  then show ?thesis unfolding analyzeConflicts_def Let_def by simp
qed


lemma compareSpecificity_flip: "compareSpecificity b a = - compareSpecificity a b"
  unfolding compareSpecificity_def by (rule compareSpecificity_from_flip)

lemma rank_key_inj:
  assumes len4: "\<forall>c \<in> set rules. length (specificity c) = 4"
      and dist: "distinct (map globalOrder rules)"
  shows "inj_on rank_key (set rules)"
proof (rule inj_onI)
  fix a b assume ab: "a \<in> set rules" "b \<in> set rules" "rank_key a = rank_key b"
  then have "globalOrder a = globalOrder b" using rank_key_eq len4 by blast
  moreover have "inj_on globalOrder (set rules)" using dist by (simp add: distinct_map)
  ultimately show "a = b" using ab(1,2) by (simp add: inj_on_def)
qed

text \<open>
  The sorted array does not depend on the sorting algorithm: on the candidates of a
  property the callback is a strict total order, so any permutation of them that is
  sorted by the callback is the one the insertion sort returns.
\<close>

lemma sort_result_unique:
  assumes len4: "\<forall>c \<in> set rules. length (specificity c) = 4"
      and dist: "distinct (map globalOrder rules)"
      and perm: "mset ys = mset rules"
      and sorted: "sorted_wrt (\<lambda>a b. cascade_compare a b \<le> 0) ys"
  shows "ys = js_sort cascade_compare rules"
proof -
  let ?zs = "js_sort cascade_compare rules"
  have sy: "set ys = set rules" using perm by (metis set_mset_mset)
  have sz: "set ?zs = set rules" by (rule set_js_sort)
  have inj: "inj_on rank_key (set rules)" by (rule rank_key_inj[OF len4 dist])
  have dy: "distinct ys" using perm dist
    by (metis distinct_map mset_eq_imp_distinct_iff)
  have dz: "distinct ?zs" using mset_js_sort[of cascade_compare rules] dist
    by (metis distinct_map mset_eq_imp_distinct_iff)
  have "sorted_wrt (\<lambda>a b. rank_key a \<le> rank_key b) ys"
  proof (rule sorted_wrt_mono_rel[OF _ sorted])
    fix a b assume "a \<in> set ys" "b \<in> set ys" "cascade_compare a b \<le> 0"
    then show "rank_key a \<le> rank_key b" using cascade_compare_le len4 sy by blast
  qed
  then have 1: "sorted (map rank_key ys)" by (simp add: sorted_wrt_map)
  have 2: "sorted (map rank_key ?zs)" by (rule sorted_cascade[OF len4])
  have 3: "distinct (map rank_key ys)" using dy inj sy by (simp add: distinct_map)
  have 4: "distinct (map rank_key ?zs)" using dz inj sz by (simp add: distinct_map)
  have 5: "set (map rank_key ys) = set (map rank_key ?zs)" using sy sz by simp
  have "map rank_key ys = map rank_key ?zs"
    by (rule sorted_distinct_set_unique[OF 1 3 2 4 5])
  moreover have "inj_on rank_key (set ys \<union> set ?zs)" using inj sy sz by simp
  ultimately show ?thesis using inj_on_map_eq_map by blast
qed

lemma ranking_of_candidates:
  assumes len4: "\<forall>c \<in> set rules. length (specificity c) = 4"
      and dist: "distinct (map globalOrder rules)"
      and two: "2 \<le> length rules"
  shows "\<exists>d. resolve_property rules = Some d \<and> winner d \<in> set rules \<and>
              (\<forall>c \<in> set rules. c \<noteq> winner d \<longrightarrow> spec_outranks (winner d) c) \<and>
              (\<forall>c \<in> set rules. hasImportant c \<and>
                  (\<forall>c' \<in> set rules. c' \<noteq> c \<longrightarrow> \<not> hasImportant c') \<longrightarrow> winner d = c)"
proof -
  obtain d where d: "resolve_property rules = Some d"
      "mset (winner d # losers d) = mset rules"
      "\<forall>l \<in> set (losers d). spec_outranks (winner d) l"
    using resolve_property_sorted[OF len4 dist two] by blast
  have s: "set rules = insert (winner d) (set (losers d))"
  proof -
    have "set_mset (mset (winner d # losers d)) = set_mset (mset rules)" using d(2) by simp
    then show ?thesis by simp
  qed
  have w: "winner d \<in> set rules" using s by simp
  have o: "\<forall>c \<in> set rules. c \<noteq> winner d \<longrightarrow> spec_outranks (winner d) c"
    using s d(3) by auto
  have i: "\<forall>c \<in> set rules. hasImportant c \<and>
                  (\<forall>c' \<in> set rules. c' \<noteq> c \<longrightarrow> \<not> hasImportant c') \<longrightarrow> winner d = c"
  proof (intro ballI impI)
    fix c assume c: "c \<in> set rules"
      "hasImportant c \<and> (\<forall>c' \<in> set rules. c' \<noteq> c \<longrightarrow> \<not> hasImportant c')"
    show "winner d = c"
    proof (rule ccontr)
      assume n: "winner d \<noteq> c"
      then have "spec_outranks (winner d) c" using o c(1) by auto
      moreover have "\<not> hasImportant (winner d)" using c(2) w n by auto
      ultimately show False using c(2) unfolding spec_outranks_def by auto
    qed
  qed
  show ?thesis using d(1) w o i by blast
qed

lemma collected_rules_shape:
  assumes "(p, rules) \<in> set (collect_rules lib cssResults css)"
  shows "(\<forall>c \<in> set rules. length (specificity c) = 4) \<and> distinct (map globalOrder rules) \<and>
         (\<forall>c \<in> set rules. hasImportant c = hasImportant_value (decl_value c) \<and>
              fileOrder c = fileOrderValue css (filePath c))"
  using collect_rules_invariant[OF assms] unfolding candidate_well_formed_def by blast

text \<open>
  The first loop files the declarations of the input under their properties in the
  order in which they are written, and \<open>globalOrder\<close> is the position of a declaration
  in that order.
\<close>

lemma length_number_from: "length (number_from n ds) = length ds"
  by (induction ds arbitrary: n) simp_all

lemma number_from_append:
  "number_from n (xs @ ys) = number_from n xs @ number_from (n + length xs) ys"
  by (induction xs arbitrary: n) simp_all

lemma globalOrder_number_from:
  "map (\<lambda>d. globalOrder (snd d)) (number_from n ds) = [n ..< n + length ds]"
proof (induction ds arbitrary: n)
  case Nil
  then show ?case by simp
next
  case (Cons d ds)
  have "[n ..< n + length (d # ds)] = n # [Suc n ..< Suc n + length ds]"
    using upt_conv_Cons[of n "n + length (d # ds)"] by simp
  then show ?case using Cons by simp
qed

lemma fold_collect_declaration:
  "fold (collect_declaration sel spec path order m) props (entries, n) =
     (fold push_declaration
        (number_from n (map (declaration_candidate sel spec path order m) props)) entries,
      n + length props)"
  by (induction props arbitrary: entries n)
     (simp_all add: collect_declaration_def declaration_candidate_def push_declaration_def)

lemma collect_match_declarations:
  "collect_match lib path order m (entries, n) =
     (fold push_declaration (number_from n (match_declarations lib path order m)) entries,
      n + length (match_declarations lib path order m))"
  by (simp add: collect_match_def match_declarations_def Let_def fold_collect_declaration)

lemma fold_collect_match:
  "fold (collect_match lib path order) ms (entries, n) =
     (fold push_declaration
        (number_from n (concat (map (match_declarations lib path order) ms))) entries,
      n + length (concat (map (match_declarations lib path order) ms)))"
proof (induction ms arbitrary: entries n)
  case Nil
  then show ?case by simp
next
  case (Cons m ms)
  show ?case
    by (simp add: collect_match_declarations Cons number_from_append add.assoc
        del: length_concat)
qed

lemma collect_result_declarations:
  "collect_result lib css result (entries, n) =
     (fold push_declaration (number_from n (result_declarations lib css result)) entries,
      n + length (result_declarations lib css result))"
  by (simp add: collect_result_def result_declarations_def Let_def fold_collect_match)

lemma fold_collect_result:
  "fold (collect_result lib css) results (entries, n) =
     (fold push_declaration
        (number_from n (concat (map (result_declarations lib css) results))) entries,
      n + length (concat (map (result_declarations lib css) results)))"
proof (induction results arbitrary: entries n)
  case Nil
  then show ?case by simp
next
  case (Cons r rs)
  show ?case
    by (simp add: collect_result_declarations Cons number_from_append add.assoc
        del: length_concat)
qed

lemma collect_rules_declarations:
  "collect_rules lib cssResults css =
     fold push_declaration (declarations_in_order lib cssResults css) []"
  by (simp add: collect_rules_def declarations_in_order_def fold_collect_result)

lemma map_of_push_rule:
  "map_of (push_rule p c entries) q =
     (if q = p then Some (case map_of entries p of None \<Rightarrow> [c] | Some rs \<Rightarrow> rs @ [c])
      else map_of entries q)"
  by (induction p c entries rule: push_rule.induct) auto

lemma keys_push_rule:
  "map fst (push_rule p c entries) =
     (if p \<in> set (map fst entries) then map fst entries else map fst entries @ [p])"
  by (induction p c entries rule: push_rule.induct) auto

lemma distinct_push_rule:
  "distinct (map fst entries) \<Longrightarrow> distinct (map fst (push_rule p c entries))"
  by (simp add: keys_push_rule)

lemma distinct_fold_push:
  "distinct (map fst entries) \<Longrightarrow> distinct (map fst (fold push_declaration ds entries))"
  by (induction ds arbitrary: entries) (simp_all add: push_declaration_def distinct_push_rule)

lemma map_of_fold_push:
  "map_of (fold push_declaration ds entries) q =
     (case map_of entries q of
        None \<Rightarrow> (if filter (\<lambda>d. fst d = q) ds = [] then None
                 else Some (map snd (filter (\<lambda>d. fst d = q) ds)))
      | Some rs \<Rightarrow> Some (rs @ map snd (filter (\<lambda>d. fst d = q) ds)))"
proof (induction ds arbitrary: entries)
  case Nil
  then show ?case by (simp split: option.splits)
next
  case (Cons d ds)
  have e: "fold push_declaration (d # ds) entries =
             fold push_declaration ds (push_declaration d entries)"
    by simp
  have p: "push_declaration d entries = push_rule (fst d) (snd d) entries"
    by (simp add: push_declaration_def)
  show ?case unfolding e Cons p map_of_push_rule
    by (simp split: option.splits)
qed

lemma candidates_in_declaration_order:
  assumes "(p, rules) \<in> set (collect_rules lib cssResults css)"
  shows "rules = map snd (filter (\<lambda>d. fst d = p) (declarations_in_order lib cssResults css))"
proof -
  let ?ds = "declarations_in_order lib cssResults css"
  have "distinct (map fst (fold push_declaration ?ds []))"
    by (rule distinct_fold_push) simp
  then have "map_of (fold push_declaration ?ds []) p = Some rules"
    using assms unfolding collect_rules_declarations by (rule map_of_is_SomeI)
  then show ?thesis unfolding map_of_fold_push by (simp split: if_splits)
qed

lemma declarations_numbered:
  "map (\<lambda>d. globalOrder (snd d)) (declarations_in_order lib cssResults css) =
     [0 ..< length (declarations_in_order lib cssResults css)]"
  unfolding declarations_in_order_def
  using globalOrder_number_from[of 0] by (simp add: length_number_from)

lemma later_candidate_later_declaration:
  assumes "(p, rules) \<in> set (collect_rules lib cssResults css)"
  shows "sorted_wrt (\<lambda>a b. globalOrder a < globalOrder b) rules"
proof -
  let ?ds = "declarations_in_order lib cssResults css"
  have "sorted_wrt (<) (map (\<lambda>d. globalOrder (snd d)) ?ds)"
    unfolding declarations_numbered by (rule sorted_wrt_upt)
  then have "sorted_wrt (\<lambda>a b. globalOrder (snd a) < globalOrder (snd b)) ?ds"
    by (simp add: sorted_wrt_map)
  then have "sorted_wrt (\<lambda>a b. globalOrder (snd a) < globalOrder (snd b))
               (filter (\<lambda>d. fst d = p) ?ds)"
    by (rule sorted_wrt_filter)
  then have "sorted_wrt (\<lambda>a b. globalOrder a < globalOrder b)
               (map snd (filter (\<lambda>d. fst d = p) ?ds))"
    by (simp add: sorted_wrt_map)
  then show ?thesis unfolding candidates_in_declaration_order[OF assms] .
qed

lemma later_declaration_outranks:
  assumes mem: "(p, rules) \<in> set (collect_rules lib cssResults css)"
      and ij: "i < j" "j < length rules"
      and tie: "hasImportant (rules ! i) = hasImportant (rules ! j)"
        "specificity (rules ! i) = specificity (rules ! j)"
        "fileOrder (rules ! i) = fileOrder (rules ! j)"
  shows "spec_outranks (rules ! j) (rules ! i)"
proof -
  have "globalOrder (rules ! i) < globalOrder (rules ! j)"
    using later_candidate_later_declaration[OF mem] ij by (simp add: sorted_wrt_iff_nth_less)
  then show ?thesis using tie unfolding spec_outranks_def by simp
qed

text \<open>
  Claim C1. Take a property for which \<open>analyzeConflicts\<close> has collected two or more
  candidates. A decision is emitted for it, and its winner is one of the candidates and
  outranks every other one in the stated order \<open>spec_outranks\<close>: \<open>!important\<close> first,
  then the lexicographically higher specificity, then the larger file order, then the
  later declaration. On these candidates the callback given to \<open>sort\<close> says exactly
  what \<open>spec_outranks\<close> says. A candidate that alone carries \<open>!important\<close> is the winner
  whatever the specificities are. The \<open>!important\<close> flag is that of the declared value,
  the file order is that of the candidate's path, and for linked files it is the position
  in the linked list, so that a later file has the larger file order. The candidates
  are the declarations of the property in the order in which the input has them, each
  numbered by its position among all declarations, so that of two candidates that tie on
  \<open>!important\<close>, specificity and file order the one declared later outranks the other.
\<close>

theorem cascade_total_order:
  assumes mem: "(p, rules) \<in> set (collect_rules lib cssResults css)"
      and two: "2 \<le> length rules"
  shows "(\<exists>d. (p, d) \<in> set (analyzeConflicts lib cssResults css) \<and>
              resolve_property rules = Some d \<and> winner d \<in> set rules \<and>
              (\<forall>c \<in> set rules. c \<noteq> winner d \<longrightarrow> spec_outranks (winner d) c) \<and>
              (\<forall>c \<in> set rules. hasImportant c \<and>
                  (\<forall>c' \<in> set rules. c' \<noteq> c \<longrightarrow> \<not> hasImportant c') \<longrightarrow> winner d = c)) \<and>
         (\<forall>a \<in> set rules. \<forall>b \<in> set rules. (cascade_compare a b > 0) = spec_outranks a b) \<and>
         (\<forall>c \<in> set rules. hasImportant c = hasImportant_value (decl_value c) \<and>
              fileOrder c = fileOrderValue css (filePath c)) \<and>
         (\<forall>i j. distinct css \<and> i < j \<and> j < length css \<longrightarrow>
            fileOrderValue css (Some (css ! i)) < fileOrderValue css (Some (css ! j))) \<and>
         rules = map snd (filter (\<lambda>d. fst d = p) (declarations_in_order lib cssResults css)) \<and>
         map (\<lambda>d. globalOrder (snd d)) (declarations_in_order lib cssResults css) =
           [0 ..< length (declarations_in_order lib cssResults css)] \<and>
         (\<forall>i j. i < j \<and> j < length rules \<longrightarrow>
            globalOrder (rules ! i) < globalOrder (rules ! j)) \<and>
         (\<forall>i j. i < j \<and> j < length rules \<and>
            hasImportant (rules ! i) = hasImportant (rules ! j) \<and>
            specificity (rules ! i) = specificity (rules ! j) \<and>
            fileOrder (rules ! i) = fileOrder (rules ! j) \<longrightarrow>
            spec_outranks (rules ! j) (rules ! i))"
proof -
  note sh = collected_rules_shape[OF mem]
  have len4: "\<forall>c \<in> set rules. length (specificity c) = 4" using sh by blast
  have dist: "distinct (map globalOrder rules)" using sh by blast
  obtain d where d: "resolve_property rules = Some d" "winner d \<in> set rules"
      "\<forall>c \<in> set rules. c \<noteq> winner d \<longrightarrow> spec_outranks (winner d) c"
      "\<forall>c \<in> set rules. hasImportant c \<and>
          (\<forall>c' \<in> set rules. c' \<noteq> c \<longrightarrow> \<not> hasImportant c') \<longrightarrow> winner d = c"
    using ranking_of_candidates[OF len4 dist two] by blast
  have e: "(p, d) \<in> set (analyzeConflicts lib cssResults css)"
    unfolding analyzeConflicts_entries using mem d(1) by blast
  have c: "\<forall>a \<in> set rules. \<forall>b \<in> set rules. (cascade_compare a b > 0) = spec_outranks a b"
    using len4 cascade_compare_outranks by blast
  have f: "\<forall>i j. distinct css \<and> i < j \<and> j < length css \<longrightarrow>
            fileOrderValue css (Some (css ! i)) < fileOrderValue css (Some (css ! j))"
    by (simp add: fileOrderValue_position)
  have 1: "\<exists>d. (p, d) \<in> set (analyzeConflicts lib cssResults css) \<and>
              resolve_property rules = Some d \<and> winner d \<in> set rules \<and>
              (\<forall>c \<in> set rules. c \<noteq> winner d \<longrightarrow> spec_outranks (winner d) c) \<and>
              (\<forall>c \<in> set rules. hasImportant c \<and>
                  (\<forall>c' \<in> set rules. c' \<noteq> c \<longrightarrow> \<not> hasImportant c') \<longrightarrow> winner d = c)"
    using e d by blast
  have 3: "\<forall>c \<in> set rules. hasImportant c = hasImportant_value (decl_value c) \<and>
              fileOrder c = fileOrderValue css (filePath c)"
    using sh by blast
  have 5: "rules = map snd (filter (\<lambda>d. fst d = p) (declarations_in_order lib cssResults css))"
    by (rule candidates_in_declaration_order[OF mem])
  have 6: "map (\<lambda>d. globalOrder (snd d)) (declarations_in_order lib cssResults css) =
           [0 ..< length (declarations_in_order lib cssResults css)]"
    by (rule declarations_numbered)
  have 7: "\<forall>i j. i < j \<and> j < length rules \<longrightarrow>
            globalOrder (rules ! i) < globalOrder (rules ! j)"
    using later_candidate_later_declaration[OF mem] by (simp add: sorted_wrt_iff_nth_less)
  have 8: "\<forall>i j. i < j \<and> j < length rules \<and>
            hasImportant (rules ! i) = hasImportant (rules ! j) \<and>
            specificity (rules ! i) = specificity (rules ! j) \<and>
            fileOrder (rules ! i) = fileOrder (rules ! j) \<longrightarrow>
            spec_outranks (rules ! j) (rules ! i)"
    using later_declaration_outranks[OF mem] by blast
  show ?thesis
    by (intro conjI) (rule 1, rule c, rule 3, rule f, rule 5, rule 6, rule 7, rule 8)
qed

lemma example_collected:
  "collect_rules example_library example_results example_css =
     [(''color'', [example_low, example_high, example_important])]"
  by (simp add: collect_rules_def example_results_def example_css_def collect_result_def
      collect_match_def collect_declaration_def example_match_def parseProperties_def
      parse_declaration_def js_trim_def is_space_def js_or_def or_empty_def
      calculateSpecificity_def example_library_def or_zero_def
      fileOrderValue_def fileOrder_table_def record_index_def property_key_def
      hasImportant_value_def examples_defs Let_def)

lemma example_sorted:
  "js_sort cascade_compare [example_low, example_high, example_important] =
     [example_low, example_high, example_important]"
  by (simp add: js_sort_def cascade_compare_def compareSpecificity_4 examples_defs)

lemma example_analysis:
  "analyzeConflicts example_library example_results example_css =
     [(''color'', \<lparr>winner = example_important, losers = [example_low, example_high],
                   hasConflict = True\<rparr>)]"
  unfolding analyzeConflicts_def example_collected Let_def
  by (simp add: resolve_property_def example_sorted)

lemma example_same_file_collected:
  "collect_rules example_library example_same_file_results [''a.css''] =
     [(''color'', [example_earlier, example_later])]"
  by (simp add: collect_rules_def example_same_file_results_def collect_result_def
      collect_match_def collect_declaration_def example_match_def parseProperties_def
      parse_declaration_def js_trim_def is_space_def js_or_def or_empty_def
      calculateSpecificity_def example_library_def or_zero_def
      fileOrderValue_def fileOrder_table_def record_index_def property_key_def
      hasImportant_value_def example_earlier_def example_later_def Let_def)

text \<open>
  The three declarations of the specification's example: specificity (0,1,0,0),
  specificity (0,2,0,0) in a later file, and (0,0,0,0) with \<open>!important\<close>. And two
  declarations of one file with the same selector, \<open>color: red\<close> on line 1 and
  \<open>color: blue\<close> on line 9: the later one wins.
\<close>

theorem cascade_total_order_witness:
  "(''color'', [example_low, example_high, example_important]) \<in>
     set (collect_rules example_library example_results example_css) \<and>
   2 \<le> length [example_low, example_high, example_important] \<and>
   hasImportant example_important \<and> \<not> hasImportant example_low \<and>
   \<not> hasImportant example_high \<and>
   (\<exists>d. (''color'', d) \<in> set (analyzeConflicts example_library example_results example_css) \<and>
        winner d = example_important) \<and>
   (''color'', [example_earlier, example_later]) \<in>
     set (collect_rules example_library example_same_file_results [''a.css'']) \<and>
   2 \<le> length [example_earlier, example_later] \<and>
   (\<exists>d. (''color'', d) \<in>
          set (analyzeConflicts example_library example_same_file_results [''a.css'']) \<and>
        winner d = example_later \<and> decl_value (winner d) = ''blue'' \<and>
        startLine (winner d) = 9) \<and>
   map snd (declarations_in_order example_library example_same_file_results [''a.css'']) =
     [example_earlier, example_later] \<and>
   spec_outranks example_later example_earlier"
proof -
  have mem: "(''color'', [example_low, example_high, example_important]) \<in>
     set (collect_rules example_library example_results example_css)"
    by (simp add: example_collected)
  have two: "2 \<le> length [example_low, example_high, example_important]" by simp
  have i: "hasImportant example_important" "\<not> hasImportant example_low"
    "\<not> hasImportant example_high"
    by (simp_all add: examples_defs)
  have m: "example_important \<in> set [example_low, example_high, example_important]" by simp
  have lone: "hasImportant example_important \<and>
     (\<forall>c' \<in> set [example_low, example_high, example_important].
        c' \<noteq> example_important \<longrightarrow> \<not> hasImportant c')"
    using i by simp
  from cascade_total_order[OF mem two, THEN conjunct1]
  obtain d where d: "(''color'', d) \<in> set (analyzeConflicts example_library example_results example_css)"
    "\<forall>c \<in> set [example_low, example_high, example_important]. hasImportant c \<and>
        (\<forall>c' \<in> set [example_low, example_high, example_important].
            c' \<noteq> c \<longrightarrow> \<not> hasImportant c') \<longrightarrow> winner d = c"
    by blast
  have w: "winner d = example_important" using d(2) m lone by blast
  have 1: "\<exists>d. (''color'', d) \<in> set (analyzeConflicts example_library example_results example_css) \<and>
        winner d = example_important"
    using d(1) w by blast
  have mem': "(''color'', [example_earlier, example_later]) \<in>
     set (collect_rules example_library example_same_file_results [''a.css''])"
    by (simp add: example_same_file_collected)
  have two': "2 \<le> length [example_earlier, example_later]" by simp
  note t = cascade_total_order[OF mem' two']
  have tie: "(0::nat) < 1 \<and> 1 < length [example_earlier, example_later] \<and>
     hasImportant ([example_earlier, example_later] ! 0) =
       hasImportant ([example_earlier, example_later] ! 1) \<and>
     specificity ([example_earlier, example_later] ! 0) =
       specificity ([example_earlier, example_later] ! 1) \<and>
     fileOrder ([example_earlier, example_later] ! 0) =
       fileOrder ([example_earlier, example_later] ! 1)"
    by (simp add: example_earlier_def example_later_def)
  have "spec_outranks ([example_earlier, example_later] ! 1) ([example_earlier, example_later] ! 0)"
    using t[THEN conjunct2, THEN conjunct2, THEN conjunct2, THEN conjunct2, THEN conjunct2,
            THEN conjunct2, THEN conjunct2] tie
    by blast
  then have o: "spec_outranks example_later example_earlier" by simp
  have no: "\<not> spec_outranks example_earlier example_later"
    by (simp add: spec_outranks_def spec_higher_def example_earlier_def example_later_def)
  from t[THEN conjunct1]
  obtain d' where d': "(''color'', d') \<in>
        set (analyzeConflicts example_library example_same_file_results [''a.css''])"
      "winner d' \<in> set [example_earlier, example_later]"
      "\<forall>c \<in> set [example_earlier, example_later]. c \<noteq> winner d' \<longrightarrow> spec_outranks (winner d') c"
    by blast
  have ne: "example_earlier \<noteq> example_later"
    by (simp add: example_earlier_def example_later_def)
  have w': "winner d' = example_later"
  proof (rule ccontr)
    assume n: "winner d' \<noteq> example_later"
    then have "winner d' = example_earlier" using d'(2) by simp
    then have "spec_outranks example_earlier example_later" using d'(3) ne by simp
    then show False using no by simp
  qed
  have 2: "\<exists>d. (''color'', d) \<in>
          set (analyzeConflicts example_library example_same_file_results [''a.css'']) \<and>
        winner d = example_later \<and> decl_value (winner d) = ''blue'' \<and>
        startLine (winner d) = 9"
    using d'(1) w' by (auto simp: example_later_def)
  have ds: "map snd (declarations_in_order example_library example_same_file_results [''a.css'']) =
     [example_earlier, example_later]"
    by (simp add: declarations_in_order_def result_declarations_def match_declarations_def
      declaration_candidate_def example_same_file_results_def
      example_match_def parseProperties_def
      parse_declaration_def js_trim_def is_space_def js_or_def or_empty_def
      calculateSpecificity_def example_library_def or_zero_def
      fileOrderValue_def fileOrder_table_def record_index_def property_key_def
      hasImportant_value_def example_earlier_def example_later_def Let_def)
  show ?thesis
    by (intro conjI)
       (rule mem, rule two, rule i(1), rule i(2), rule i(3), rule 1, rule mem', rule two',
        rule 2, rule ds, rule o)
qed

text \<open>
  Claim C2 as stated asks for the losers in reverse rank order, the closest competitor
  first. \<open>analyzeConflicts\<close> returns \<open>sorted.slice(0, -1)\<close> of the ascending sort: on
  the three example declarations the losers are the weakest candidate first and the
  closest competitor last.
\<close>

theorem losers_closest_first_counterexample:
  "analyzeConflicts example_library example_results example_css =
     [(''color'', \<lparr>winner = example_important, losers = [example_low, example_high],
                   hasConflict = True\<rparr>)] \<and>
   \<not> spec_losers_closest_first [example_low, example_high]"
proof -
  have "\<not> spec_losers_closest_first [example_low, example_high]"
    by (simp add: spec_losers_closest_first_def spec_outranks_def spec_higher_def examples_defs)
  then show ?thesis using example_analysis by simp
qed

text \<open>
  Claim C2, amended. Every decision that \<open>analyzeConflicts\<close> emits belongs to a property
  with two or more candidates; it has one winner, which outranks every loser and is not
  itself a loser; winner and losers together are exactly the candidates; and the losers
  are in ascending rank order (weakest first, closest competitor last).
\<close>

theorem decision_one_winner_losers_ascending:
  assumes mem: "(p, d) \<in> set (analyzeConflicts lib cssResults css)"
  shows "\<exists>rules. (p, rules) \<in> set (collect_rules lib cssResults css) \<and>
           2 \<le> length rules \<and>
           mset (winner d # losers d) = mset rules \<and>
           winner d \<notin> set (losers d) \<and>
           (\<forall>l \<in> set (losers d). spec_outranks (winner d) l) \<and>
           sorted_wrt (\<lambda>a b. spec_outranks b a) (losers d) \<and>
           hasConflict d"
proof -
  obtain rules where r: "(p, rules) \<in> set (collect_rules lib cssResults css)"
      "resolve_property rules = Some d"
    using mem unfolding analyzeConflicts_entries by blast
  have two: "2 \<le> length rules"
    using r(2) unfolding resolve_property_def by (auto split: if_splits)
  note sh = collected_rules_shape[OF r(1)]
  have len4: "\<forall>c \<in> set rules. length (specificity c) = 4" using sh by blast
  have dist: "distinct (map globalOrder rules)" using sh by blast
  from resolve_property_sorted[OF len4 dist two] r(2)
  have d: "mset (winner d # losers d) = mset rules"
      "\<forall>l \<in> set (losers d). spec_outranks (winner d) l"
      "sorted_wrt (\<lambda>a b. spec_outranks b a) (losers d)" "hasConflict d"
    by auto
  have "winner d \<notin> set (losers d)" using d(2) outranks_irrefl by blast
  then show ?thesis using r(1) two d by blast
qed

text \<open>
  The decision for \<open>color\<close> in the example.
\<close>

theorem decision_one_winner_losers_ascending_witness:
  "(''color'', \<lparr>winner = example_important, losers = [example_low, example_high],
                hasConflict = True\<rparr>) \<in>
     set (analyzeConflicts example_library example_results example_css) \<and>
   sorted_wrt (\<lambda>a b. spec_outranks b a) [example_low, example_high] \<and>
   spec_outranks example_important example_low \<and>
   spec_outranks example_important example_high"
proof -
  let ?d = "\<lparr>winner = example_important, losers = [example_low, example_high],
             hasConflict = True\<rparr>"
  have mem: "(''color'', ?d) \<in> set (analyzeConflicts example_library example_results example_css)"
    by (simp add: example_analysis)
  from decision_one_winner_losers_ascending[OF mem]
  have "(\<forall>l \<in> set (losers ?d). spec_outranks (winner ?d) l) \<and>
        sorted_wrt (\<lambda>a b. spec_outranks b a) (losers ?d)"
    by blast
  then show ?thesis using mem by simp
qed

lemma cascade_compare_refl: "cascade_compare a a = 0"
proof -
  have "compareSpecificity (specificity a) (specificity a) = 0"
    using compareSpecificity_flip[of "specificity a" "specificity a"] by simp
  then show ?thesis by (simp add: cascade_compare_def)
qed

text \<open>
  Claim C10. A collected candidate whose file is not in the linked-stylesheet list has
  file order 999. With fewer than 999 linked files a candidate from a listed file has a
  smaller file order, so when \<open>!important\<close> status and specificity tie, the declaration
  from the unlisted file ranks above the one from the listed file: the listed one is not
  the winner of the property, and of the two alone the unlisted one wins in either order.
\<close>

theorem unlisted_file_beats_listed:
  assumes mem: "(p, rules) \<in> set (collect_rules lib cssResults css)"
      and a: "a \<in> set rules" and b: "b \<in> set rules"
      and few: "length css < 999"
      and ua: "property_key (filePath a) \<notin> set css"
      and lb: "property_key (filePath b) \<in> set css"
      and imp: "hasImportant a = hasImportant b"
      and tie: "compareSpecificity (specificity a) (specificity b) = 0"
  shows "fileOrder a = 999 \<and> fileOrder b < 999 \<and>
         cascade_compare a b > 0 \<and> cascade_compare b a < 0 \<and>
         (\<exists>d. (p, d) \<in> set (analyzeConflicts lib cssResults css) \<and>
              resolve_property rules = Some d \<and> winner d \<noteq> b) \<and>
         resolve_property [a, b] = Some \<lparr>winner = a, losers = [b], hasConflict = True\<rparr> \<and>
         resolve_property [b, a] = Some \<lparr>winner = a, losers = [b], hasConflict = True\<rparr>"
proof -
  note sh = collected_rules_shape[OF mem]
  have fa: "fileOrder a = fileOrderValue css (filePath a)" using sh a by blast
  have fb: "fileOrder b = fileOrderValue css (filePath b)" using sh b by blast
  have len4: "\<forall>c \<in> set rules. length (specificity c) = 4" using sh by blast
  have dist: "distinct (map globalOrder rules)" using sh by blast
  have a999: "fileOrder a = 999" using fa fileOrderValue_unlisted[OF ua] by simp
  have blt: "fileOrder b < 999" using fb fileOrderValue_listed[OF lb] few by simp
  have tie': "compareSpecificity (specificity b) (specificity a) = 0"
    using tie compareSpecificity_flip[of "specificity b" "specificity a"] by simp
  have ab: "cascade_compare a b > 0"
    using a999 blt imp tie unfolding cascade_compare_def Let_def by simp
  have ba: "cascade_compare b a < 0"
    using a999 blt imp tie' unfolding cascade_compare_def Let_def by simp
  have s1: "js_sort cascade_compare [a, b] = [b, a]" using ab by (simp add: js_sort_def)
  have s2: "js_sort cascade_compare [b, a] = [b, a]" using ba by (simp add: js_sort_def)
  have r1: "resolve_property [a, b] = Some \<lparr>winner = a, losers = [b], hasConflict = True\<rparr>"
    unfolding resolve_property_def s1 by simp
  have r2: "resolve_property [b, a] = Some \<lparr>winner = a, losers = [b], hasConflict = True\<rparr>"
    unfolding resolve_property_def s2 by simp
  have ne: "a \<noteq> b" using a999 blt by auto
  have two: "2 \<le> length rules"
  proof -
    have "card {a, b} \<le> card (set rules)" using a b by (intro card_mono) auto
    then have "2 \<le> card (set rules)" using ne by simp
    then show ?thesis using card_length[of rules] by linarith
  qed
  obtain d where d: "resolve_property rules = Some d"
      "\<forall>c \<in> set rules. c \<noteq> winner d \<longrightarrow> spec_outranks (winner d) c"
    using ranking_of_candidates[OF len4 dist two] by blast
  have e: "(p, d) \<in> set (analyzeConflicts lib cssResults css)"
    unfolding analyzeConflicts_entries using mem d(1) by blast
  have "winner d \<noteq> b"
  proof
    assume w: "winner d = b"
    then have "spec_outranks b a" using d(2) a ne by auto
    then have "cascade_compare b a > 0"
      using cascade_compare_outranks[of b a] len4 a b by simp
    then show False using ba by simp
  qed
  then show ?thesis using a999 blt ab ba e d(1) r1 r2 by blast
qed

lemma example_unlisted_collected:
  "collect_rules example_library example_unlisted_results [''site.css''] =
     [(''color'', [example_unlisted, example_listed])]"
  by (simp add: collect_rules_def example_unlisted_results_def collect_result_def
      collect_match_def collect_declaration_def example_match_def parseProperties_def
      parse_declaration_def js_trim_def is_space_def js_or_def or_empty_def
      calculateSpecificity_def example_library_def or_zero_def
      fileOrderValue_def fileOrder_table_def record_index_def property_key_def
      hasImportant_value_def example_unlisted_def example_listed_def Let_def)

text \<open>
  One linked file \<open>site.css\<close> and a file \<open>vendor.css\<close> that is not linked.
\<close>

theorem unlisted_file_beats_listed_witness:
  "(''color'', [example_unlisted, example_listed]) \<in>
     set (collect_rules example_library example_unlisted_results [''site.css'']) \<and>
   example_unlisted \<in> set [example_unlisted, example_listed] \<and>
   example_listed \<in> set [example_unlisted, example_listed] \<and>
   length [''site.css''] < 999 \<and>
   property_key (filePath example_unlisted) \<notin> set [''site.css''] \<and>
   property_key (filePath example_listed) \<in> set [''site.css''] \<and>
   hasImportant example_unlisted = hasImportant example_listed \<and>
   compareSpecificity (specificity example_unlisted) (specificity example_listed) = 0 \<and>
   fileOrder example_unlisted = 999 \<and>
   resolve_property [example_listed, example_unlisted] =
     Some \<lparr>winner = example_unlisted, losers = [example_listed], hasConflict = True\<rparr>"
proof -
  have mem: "(''color'', [example_unlisted, example_listed]) \<in>
     set (collect_rules example_library example_unlisted_results [''site.css''])"
    by (simp add: example_unlisted_collected)
  have a: "example_unlisted \<in> set [example_unlisted, example_listed]" by simp
  have b: "example_listed \<in> set [example_unlisted, example_listed]" by simp
  have few: "length [''site.css''] < 999" by simp
  have ua: "property_key (filePath example_unlisted) \<notin> set [''site.css'']"
    by (simp add: example_unlisted_def property_key_def)
  have lb: "property_key (filePath example_listed) \<in> set [''site.css'']"
    by (simp add: example_listed_def property_key_def)
  have imp: "hasImportant example_unlisted = hasImportant example_listed"
    by (simp add: example_unlisted_def example_listed_def)
  have tie: "compareSpecificity (specificity example_unlisted) (specificity example_listed) = 0"
    by (simp add: example_unlisted_def example_listed_def compareSpecificity_4)
  note t = unlisted_file_beats_listed[OF mem a b few ua lb imp tie]
  have 1: "fileOrder example_unlisted = 999" using t by blast
  have 2: "resolve_property [example_listed, example_unlisted] =
     Some \<lparr>winner = example_unlisted, losers = [example_listed], hasConflict = True\<rparr>"
    using t by blast
  show ?thesis using mem a b few ua lb imp tie 1 2 by blast
qed

section \<open>Properties of the ghost class detector\<close>

lemma rx_search_Bol_False: "rx_search (Seq (Bol # rs)) False s = False"
  by (induction s) auto

lemma rx_test_Bol: "rx_test (Seq (Bol # rs)) s = (rx_run_seq rs (True, s) \<noteq> [])"
  unfolding rx_test_def by (cases s) (auto simp: rx_search_Bol_False)

lemma rx_test_anchored: "rx_test (anchored w) s = js_startsWith s w"
  unfolding anchored_def rx_test_Bol by simp

lemma length_IGNORED_PATTERNS: "length IGNORED_PATTERNS = 80"
  by (simp add: IGNORED_PATTERNS_def)

lemma flex_utility: "isUtility ''flex''"
  by (simp add: isUtility_def IGNORED_PATTERNS_def cleanName_of_def rx_test_anchored rx_test_Bol colour_names_def digit_chars_def)

lemma is_active_utility: "isUtility ''is-active''"
  by (simp add: isUtility_def IGNORED_PATTERNS_def cleanName_of_def rx_test_anchored rx_test_Bol colour_names_def digit_chars_def)

lemma p4_utility: "isUtility ''p-4''"
  by (simp add: isUtility_def IGNORED_PATTERNS_def cleanName_of_def rx_test_anchored rx_test_Bol colour_names_def digit_chars_def)

lemma text_blue_utility: "isUtility ''text-blue-500''"
  by (simp add: isUtility_def IGNORED_PATTERNS_def cleanName_of_def rx_test_anchored rx_test_Bol colour_names_def digit_chars_def)

lemma text_2xl_utility: "isUtility ''text-2xl''"
  by (simp add: isUtility_def IGNORED_PATTERNS_def cleanName_of_def rx_test_anchored rx_test_Bol colour_names_def digit_chars_def)

lemma hashed_not_utility: "\<not> isUtility ''Btn_primary_a1b2c''"
  by (simp add: isUtility_def IGNORED_PATTERNS_def cleanName_of_def rx_test_anchored rx_test_Bol colour_names_def digit_chars_def)

lemma missing_not_utility: "\<not> isUtility ''my-missing-class''"
  by (simp add: isUtility_def IGNORED_PATTERNS_def cleanName_of_def rx_test_anchored rx_test_Bol colour_names_def digit_chars_def)

lemmas utility_eval = isUtility_def IGNORED_PATTERNS_def cleanName_of_def rx_test_anchored
  rx_test_Bol colour_names_def digit_chars_def

lemma ghost_report_fields:
  "classes ti \<noteq> [] \<Longrightarrow>
   ghostClasses (detectGhostClasses ti a b c) =
     filter (is_ghost (definedClasses (detectGhostClasses ti a b c))) (classes ti)"
  by (simp add: detectGhostClasses_def Let_def)

lemma ghost_report_empty:
  "classes ti = [] \<Longrightarrow>
   detectGhostClasses ti a b c =
     \<lparr>ghostClasses = [], definedClasses = [], totalClasses = 0, hasGhosts = None\<rparr>"
  by (simp add: detectGhostClasses_def)

lemma ghost_iff:
  "(cls \<in> set (ghostClasses (detectGhostClasses ti a b c))) =
   (cls \<in> set (classes ti) \<and>
    className_of cls \<notin> set (definedClasses (detectGhostClasses ti a b c)) \<and>
    cls \<notin> set (definedClasses (detectGhostClasses ti a b c)) \<and>
    \<not> isUtility cls)"
proof (cases "classes ti = []")
  case True
  then show ?thesis by (simp add: ghost_report_empty)
next
  case False
  show ?thesis unfolding ghost_report_fields[OF False]
    by (auto simp: is_ghost_def)
qed

lemma utility_never_ghost:
  "isUtility cls \<Longrightarrow> cls \<notin> set (ghostClasses (detectGhostClasses ti a b c))"
  by (simp add: ghost_iff)

lemma unreferenced_non_utility_is_ghost:
  "cls \<in> set (classes ti) \<Longrightarrow>
   className_of cls \<notin> set (definedClasses (detectGhostClasses ti a b c)) \<Longrightarrow>
   cls \<notin> set (definedClasses (detectGhostClasses ti a b c)) \<Longrightarrow>
   \<not> isUtility cls \<Longrightarrow>
   cls \<in> set (ghostClasses (detectGhostClasses ti a b c))"
  by (simp add: ghost_iff)

text \<open>
  Claim C5 names \<open>Btn_primary_a1b2c\<close> (a CSS-Modules hashed class) among the classes
  that are never reported as ghosts. \<open>IGNORED_PATTERNS\<close> has no entry that matches
  it, so the detector reports it when no rule references it. The two general statements
  of the claim are \<open>utility_never_ghost\<close> and \<open>unreferenced_non_utility_is_ghost\<close>
  above; they hold for the table as it is.
\<close>

theorem hashed_module_class_reported_as_ghost:
  "detectGhostClasses example_hashed_target [] [] [] =
     \<lparr>ghostClasses = [''Btn_primary_a1b2c''], definedClasses = [], totalClasses = 1,
      hasGhosts = Some True\<rparr>"
proof -
  have "is_ghost [] ''Btn_primary_a1b2c''"
    unfolding is_ghost_def using hashed_not_utility by simp
  then show ?thesis
    by (simp add: detectGhostClasses_def example_hashed_target_def scan_results_def scan_inline_def)
qed

text \<open>
  Claim C8 asks that \<open>hasGhosts\<close> equal \<open>ghostClasses.length > 0\<close> for every input,
  the empty class list included. The early return for an empty class list builds a
  report without the \<open>hasGhosts\<close> field: reading it gives \<open>undefined\<close>, not
  \<open>false\<close>.
\<close>

theorem empty_class_list_report_lacks_hasGhosts:
  "detectGhostClasses example_empty_target cssResults cssLibraryResults inlineStyles =
     \<lparr>ghostClasses = [], definedClasses = [], totalClasses = 0, hasGhosts = None\<rparr> \<and>
   hasGhosts (detectGhostClasses example_empty_target cssResults cssLibraryResults inlineStyles)
     \<noteq> Some (length (ghostClasses
         (detectGhostClasses example_empty_target cssResults cssLibraryResults inlineStyles)) > 0)"
  by (simp add: ghost_report_empty example_empty_target_def)

lemma hero_not_utility: "\<not> isUtility ''.hero''"
  by (simp add: utility_eval)

text \<open>
  Claim C9 as stated says that a class which the defined set holds under its dotted or
  its undotted form is never reported as a ghost. For a target class written with a
  leading dot the filter looks up the class as it stands only: with the target classes
  \<open>.hero\<close> and \<open>hero\<close> and a rule \<open>#hero\<close>, the defined set holds \<open>hero\<close>, the
  undotted form of \<open>.hero\<close>, and \<open>.hero\<close> is reported as a ghost.
\<close>

theorem undotted_form_defined_counterexample:
  "detectGhostClasses example_hero_target example_hero_results [] [] =
     \<lparr>ghostClasses = [''.hero''], definedClasses = [''hero''], totalClasses = 2,
      hasGhosts = Some True\<rparr> \<and>
   cleanName_of ''.hero'' = ''hero'' \<and>
   ''.hero'' \<in> set (ghostClasses (detectGhostClasses example_hero_target example_hero_results [] [])) \<and>
   cleanName_of ''.hero'' \<in>
     set (definedClasses (detectGhostClasses example_hero_target example_hero_results [] []))"
proof -
  have d: "scan_inline [''.hero'', ''hero''] []
             (scan_results [''.hero'', ''hero''] []
               (scan_results [''.hero'', ''hero''] example_hero_results [])) = [''hero'']"
    by (simp add: scan_inline_def scan_results_def example_hero_results_def scan_match_def
        processMatchedOn_def matchedOn_items_def add_included_def set_add_def or_empty_def)
  have g1: "is_ghost [''hero''] ''.hero''"
    unfolding is_ghost_def className_of_def using hero_not_utility by simp
  have g2: "\<not> is_ghost [''hero''] ''hero''"
    unfolding is_ghost_def by simp
  have r: "detectGhostClasses example_hero_target example_hero_results [] [] =
     \<lparr>ghostClasses = [''.hero''], definedClasses = [''hero''], totalClasses = 2,
      hasGhosts = Some True\<rparr>"
    unfolding detectGhostClasses_def Let_def
    by (simp add: example_hero_target_def d g1 g2)
  have c: "cleanName_of ''.hero'' = ''hero''" by (simp add: cleanName_of_def)
  show ?thesis unfolding r c by simp
qed

text \<open>
  Claim C9, amended. In every report the ghost classes and the defined classes are
  disjoint: a reported ghost is in the defined set neither as it stands nor in the form
  \<open>className\<close> of the source (the class with a dot before it, or the class itself when
  it starts with a dot). For a class that does not start with a dot these are its
  undotted and its dotted form.
\<close>

theorem ghosts_disjoint_from_defined:
  "set (ghostClasses (detectGhostClasses ti cssResults cssLibraryResults inlineStyles)) \<inter>
   set (definedClasses (detectGhostClasses ti cssResults cssLibraryResults inlineStyles)) = {} \<and>
   (\<forall>cls \<in> set (ghostClasses (detectGhostClasses ti cssResults cssLibraryResults inlineStyles)).
      cls \<notin> set (definedClasses (detectGhostClasses ti cssResults cssLibraryResults inlineStyles)) \<and>
      className_of cls \<notin>
        set (definedClasses (detectGhostClasses ti cssResults cssLibraryResults inlineStyles))) \<and>
   (\<forall>cls \<in> set (ghostClasses (detectGhostClasses ti cssResults cssLibraryResults inlineStyles)).
      \<not> js_startsWith cls ''.'' \<longrightarrow>
      cleanName_of cls = cls \<and> className_of cls = CHR ''.'' # cls \<and>
      cleanName_of cls \<notin>
        set (definedClasses (detectGhostClasses ti cssResults cssLibraryResults inlineStyles)) \<and>
      CHR ''.'' # cls \<notin>
        set (definedClasses (detectGhostClasses ti cssResults cssLibraryResults inlineStyles)))"
proof -
  let ?r = "detectGhostClasses ti cssResults cssLibraryResults inlineStyles"
  have g: "cls \<notin> set (definedClasses ?r) \<and> className_of cls \<notin> set (definedClasses ?r)"
    if "cls \<in> set (ghostClasses ?r)" for cls
    using that by (simp add: ghost_iff)
  have 1: "set (ghostClasses ?r) \<inter> set (definedClasses ?r) = {}"
    using g by blast
  have 2: "\<forall>cls \<in> set (ghostClasses ?r).
      cls \<notin> set (definedClasses ?r) \<and> className_of cls \<notin> set (definedClasses ?r)"
    using g by blast
  have 3: "\<forall>cls \<in> set (ghostClasses ?r).
      \<not> js_startsWith cls ''.'' \<longrightarrow>
      cleanName_of cls = cls \<and> className_of cls = CHR ''.'' # cls \<and>
      cleanName_of cls \<notin> set (definedClasses ?r) \<and>
      CHR ''.'' # cls \<notin> set (definedClasses ?r)"
  proof (intro ballI impI)
    fix cls assume c: "cls \<in> set (ghostClasses ?r)" and n: "\<not> js_startsWith cls ''.''"
    have a: "cleanName_of cls = cls" using n by (simp add: cleanName_of_def)
    have b: "className_of cls = CHR ''.'' # cls" using n by (simp add: className_of_def)
    show "cleanName_of cls = cls \<and> className_of cls = CHR ''.'' # cls \<and>
      cleanName_of cls \<notin> set (definedClasses ?r) \<and>
      CHR ''.'' # cls \<notin> set (definedClasses ?r)"
      using g[OF c] a b by simp
  qed
  show ?thesis by (intro conjI) (rule 1, rule 2, rule 3)
qed

lemma example_card_report:
  "detectGhostClasses example_card_target example_card_results [] [] =
     \<lparr>ghostClasses = [''my-missing-class''], definedClasses = [''.card'', ''card''],
      totalClasses = 2, hasGhosts = Some True\<rparr>"
proof -
  have d: "scan_inline [''card'', ''my-missing-class''] []
             (scan_results [''card'', ''my-missing-class''] []
               (scan_results [''card'', ''my-missing-class''] example_card_results [])) =
           [''.card'', ''card'']"
    by (simp add: scan_inline_def scan_results_def example_card_results_def scan_match_def
        processMatchedOn_def matchedOn_items_def add_included_def set_add_def or_empty_def
        js_trim_def is_space_def)
  have g1: "is_ghost [''.card'', ''card''] ''my-missing-class''"
    unfolding is_ghost_def className_of_def using missing_not_utility by simp
  have g2: "\<not> is_ghost [''.card'', ''card''] ''card''"
    unfolding is_ghost_def by simp
  show ?thesis
    unfolding detectGhostClasses_def Let_def
    by (simp add: example_card_target_def d g1 g2)
qed

text \<open>A target with one class that a rule references and one that nothing references.\<close>

theorem ghosts_disjoint_from_defined_witness:
  "ghostClasses (detectGhostClasses example_card_target example_card_results [] []) =
     [''my-missing-class''] \<and>
   definedClasses (detectGhostClasses example_card_target example_card_results [] []) =
     [''.card'', ''card''] \<and>
   \<not> js_startsWith ''my-missing-class'' ''.'' \<and>
   set (ghostClasses (detectGhostClasses example_card_target example_card_results [] [])) \<inter>
   set (definedClasses (detectGhostClasses example_card_target example_card_results [] [])) = {} \<and>
   CHR ''.'' # ''my-missing-class'' \<notin>
     set (definedClasses (detectGhostClasses example_card_target example_card_results [] []))"
proof -
  let ?r = "detectGhostClasses example_card_target example_card_results [] []"
  note t = ghosts_disjoint_from_defined[of example_card_target example_card_results "[]" "[]"]
  have g: "ghostClasses ?r = [''my-missing-class'']" by (simp add: example_card_report)
  have d: "definedClasses ?r = [''.card'', ''card'']" by (simp add: example_card_report)
  have n: "\<not> js_startsWith ''my-missing-class'' ''.''" by simp
  have m: "''my-missing-class'' \<in> set (ghostClasses ?r)" unfolding g by simp
  have 1: "set (ghostClasses ?r) \<inter> set (definedClasses ?r) = {}"
    using t[THEN conjunct1] .
  have 3: "CHR ''.'' # ''my-missing-class'' \<notin> set (definedClasses ?r)"
    using t[THEN conjunct2, THEN conjunct2] m n by blast
  show ?thesis by (intro conjI) (rule g, rule d, rule n, rule 1, rule 3)
qed

end
